theory Spec2Isabelle
  imports Complex_Main "HOL-Library.Sublist" "HOL-Library.Log_Nat"
begin

chapter \<open>The deal checkers: a shallow embedding\<close>

text \<open>
  The repository holds three scripts: the signed-API variant
  (\<^verbatim>\<open>check-deal-amazon-api.mjs\<close>), the keyed-API variant
  (\<^verbatim>\<open>check-deals-keepa.mjs\<close>) and the browser-driven variant
  (\<^verbatim>\<open>scrape-deals.mjs\<close>).  Their pure helpers are HOL functions below.  What the
  platform supplies (the URL parser, the hash functions, the clock, the rendered page) is
  an explicit argument of the function that uses it.

  Strings are \<^typ>\<open>string\<close>.  A JavaScript number is a rational: where a number is
  only read, compared or rounded to cents it is the value of its decimal text; the
  arithmetic of the discount rounds every operand and every result to the nearest double,
  as the language does.  The values that are not finite numbers are modelled where the
  code can meet them.  An absent value (\<^verbatim>\<open>null\<close> or \<^verbatim>\<open>undefined\<close>) is \<^const>\<open>None\<close>.
\<close>

section \<open>Characters, strings and truthiness\<close>

datatype js_error = RangeError | Rejected

definition is_digit :: "char \<Rightarrow> bool" where
  "is_digit c = (c \<in> set ''0123456789'')"

definition is_upper :: "char \<Rightarrow> bool" where
  "is_upper c = (c \<in> set ''ABCDEFGHIJKLMNOPQRSTUVWXYZ'')"

definition is_lower :: "char \<Rightarrow> bool" where
  "is_lower c = (c \<in> set ''abcdefghijklmnopqrstuvwxyz'')"

text \<open>
  \<^verbatim>\<open>toUpperCase\<close> and the case folding of a regular expression with the \<^verbatim>\<open>i\<close> flag.
  Only the ASCII letters are mapped: without the \<^verbatim>\<open>u\<close> flag a regular expression never
  folds a character outside ASCII onto an ASCII one, and \<^verbatim>\<open>toUpperCase\<close> is applied
  below to strings of ASCII letters and digits only.
\<close>

definition upper_char :: "char \<Rightarrow> char" where
  "upper_char c =
     (case map_of (zip ''abcdefghijklmnopqrstuvwxyz'' ''ABCDEFGHIJKLMNOPQRSTUVWXYZ'') c of
        Some u \<Rightarrow> u
      | None \<Rightarrow> c)"

definition toUpperCase :: "string \<Rightarrow> string" where
  "toUpperCase s = map upper_char s"

text \<open>The class \<^verbatim>\<open>[A-Z0-9]\<close> under the \<^verbatim>\<open>i\<close> flag.\<close>

definition alnum_ci :: "char \<Rightarrow> bool" where
  "alnum_ci c = (is_upper c \<or> is_lower c \<or> is_digit c)"

text \<open>A string in a boolean position: absent and the empty string are falsy.\<close>

definition truthy :: "string option \<Rightarrow> bool" where
  "truthy v = (case v of None \<Rightarrow> False | Some s \<Rightarrow> s \<noteq> [])"

text \<open>\<^verbatim>\<open>a || b\<close> on strings that may be absent.\<close>

definition or_else :: "string option \<Rightarrow> string option \<Rightarrow> string option" where
  "or_else a b = (if truthy a then a else b)"

text \<open>\<^verbatim>\<open>haystack.includes(needle)\<close>.\<close>

fun str_includes :: "string \<Rightarrow> string \<Rightarrow> bool" where
  "str_includes [] needle = (needle = [])"
| "str_includes (c # cs) needle = (prefix needle (c # cs) \<or> str_includes cs needle)"

text \<open>
  \<^verbatim>\<open>trim\<close>, on the ASCII white space (space, tab, line feed, vertical tab, form feed,
  carriage return).
\<close>

definition is_space :: "char \<Rightarrow> bool" where
  "is_space c = (c \<in> set [CHR '' '', CHR 0x09, CHR 0x0A, CHR 0x0B, CHR 0x0C, CHR 0x0D])"

definition trim :: "string \<Rightarrow> string" where
  "trim s = rev (dropWhile is_space (rev (dropWhile is_space s)))"

section \<open>Regular expressions of the identifier extractors\<close>

text \<open>A literal under the \<^verbatim>\<open>i\<close> flag, matched at the start of the input: the rest after it.\<close>

fun ci_prefix :: "string \<Rightarrow> string \<Rightarrow> string option" where
  "ci_prefix [] s = Some s"
| "ci_prefix (p # ps) [] = None"
| "ci_prefix (p # ps) (c # cs) = (if upper_char p = upper_char c then ci_prefix ps cs else None)"

text \<open>The group \<^verbatim>\<open>([A-Z0-9]{10})\<close> under the \<^verbatim>\<open>i\<close> flag, at the start of the input.\<close>

definition alnum10 :: "string \<Rightarrow> string option" where
  "alnum10 s = (if 10 \<le> length s \<and> list_all alnum_ci (take 10 s) then Some (take 10 s) else None)"

text \<open>
  An alternation of literals followed by the group, at the start of the input: the
  alternatives are tried in their order, and the first one after which the group matches
  gives the capture.
\<close>

fun first_alt :: "string list \<Rightarrow> string \<Rightarrow> string option" where
  "first_alt [] s = None"
| "first_alt (p # ps) s =
     (case ci_prefix p s of
        None \<Rightarrow> first_alt ps s
      | Some rest \<Rightarrow> (case alnum10 rest of None \<Rightarrow> first_alt ps s | Some g \<Rightarrow> Some g))"

text \<open>
  An unanchored match: the start positions are tried from left to right, the end of the
  input included; the leftmost match wins.
\<close>

fun search :: "(string \<Rightarrow> 'a option) \<Rightarrow> string \<Rightarrow> 'a option" where
  "search m [] = m []"
| "search m (c # cs) = (case m (c # cs) of None \<Rightarrow> search m cs | Some r \<Rightarrow> Some r)"

text \<open>
  \<^verbatim>\<open>/\/(?:dp|gp\/product|gp\/aw\/d|gp\/offer-listing)\/([A-Z0-9]{10})/i\<close>, the pattern of the
  parsed path, and
  \<^verbatim>\<open>/(?:\/dp\/|\/gp\/product\/|\/gp\/aw\/d\/|\/gp\/offer-listing\/)([A-Z0-9]{10})/i\<close>, the
  pattern of the raw string.
\<close>

definition path_alternatives :: "string list" where
  "path_alternatives =
     map (\<lambda>a. ''/'' @ a @ ''/'') [''dp'', ''gp/product'', ''gp/aw/d'', ''gp/offer-listing'']"

definition raw_alternatives :: "string list" where
  "raw_alternatives = [''/dp/'', ''/gp/product/'', ''/gp/aw/d/'', ''/gp/offer-listing/'']"

definition match_product_path :: "string \<Rightarrow> string option" where
  "match_product_path s = search (first_alt path_alternatives) s"

definition match_product_raw :: "string \<Rightarrow> string option" where
  "match_product_raw s = search (first_alt raw_alternatives) s"

text \<open>\<^verbatim>\<open>/\/([A-Z0-9]{10})(?:[/?#]|$)/i\<close>.\<close>

definition bare_segment_at :: "string \<Rightarrow> string option" where
  "bare_segment_at s =
     (case ci_prefix ''/'' s of
        None \<Rightarrow> None
      | Some rest \<Rightarrow>
          (case alnum10 rest of
             None \<Rightarrow> None
           | Some g \<Rightarrow>
               (case drop 10 rest of
                  [] \<Rightarrow> Some g
                | c # _ \<Rightarrow> if c \<in> set ''/?#'' then Some g else None)))"

definition match_bare_segment :: "string \<Rightarrow> string option" where
  "match_bare_segment s = search bare_segment_at s"

text \<open>\<^verbatim>\<open>/^[A-Z0-9]{10}$/i.test(qp)\<close>.\<close>

definition test_asin :: "string \<Rightarrow> bool" where
  "test_asin qp = (length qp = 10 \<and> list_all alnum_ci qp)"

section \<open>Identifier Extractor\<close>

text \<open>
  What the scripts read of a parsed \<^verbatim>\<open>URL\<close>.  The parser itself is the platform's:
  it is the argument \<open>newURL\<close> of the functions below, and \<^const>\<open>None\<close> stands for the
  TypeError that \<^verbatim>\<open>new URL(url)\<close> throws.  \<^verbatim>\<open>searchParams.get(name)\<close> is the value of
  the first parameter of that exact name.
\<close>

record url =
  hostname :: string
  pathname :: string
  searchParams :: "(string \<times> string) list"

definition searchParams_get :: "url \<Rightarrow> string \<Rightarrow> string option" where
  "searchParams_get u name = map_of (searchParams u) name"

text \<open>
  \<^verbatim>\<open>function extractASIN(url) {
    try {
      const u = new URL(url);
      const m1 = u.pathname.match(/\/(?:dp|gp\/product|gp\/aw\/d|gp\/offer-listing)\/([A-Z0-9]{10})/i);
      if (m1) return m1[1].toUpperCase();
      const m2 = u.pathname.match(/\/([A-Z0-9]{10})(?:[/?#]|$)/i);
      if (m2) return m2[1].toUpperCase();
      const qp = u.searchParams.get('asin') || u.searchParams.get('ASIN');
      if (qp && /^[A-Z0-9]{10}$/i.test(qp)) return qp.toUpperCase();
      return null;
    } catch {
      const m = url.match(/(?:\/dp\/|\/gp\/product\/|\/gp\/aw\/d\/|\/gp\/offer-listing\/)([A-Z0-9]{10})/i);
      return m ? m[1].toUpperCase() : null;
    }
  }\<close>
  (the same text in both API variants).
\<close>

definition extractASIN :: "(string \<Rightarrow> url option) \<Rightarrow> string \<Rightarrow> string option" where
  "extractASIN newURL raw =
     (case newURL raw of
        Some u \<Rightarrow>
          (case match_product_path (pathname u) of
             Some m1 \<Rightarrow> Some (toUpperCase m1)
           | None \<Rightarrow>
               (case match_bare_segment (pathname u) of
                  Some m2 \<Rightarrow> Some (toUpperCase m2)
                | None \<Rightarrow>
                    (let qp = or_else (searchParams_get u ''asin'') (searchParams_get u ''ASIN'')
                     in if truthy qp \<and> test_asin (the qp) then Some (toUpperCase (the qp))
                        else None)))
      | None \<Rightarrow>
          (case match_product_raw raw of
             Some m \<Rightarrow> Some (toUpperCase m)
           | None \<Rightarrow> None))"

text \<open>
  The browser-driven variant:
  \<^verbatim>\<open>function extractASINFromUrl(url) {
    const dpMatch = url.match(/\/dp\/([A-Z0-9]{10})/i);
    if (dpMatch) return dpMatch[1];
    const gpMatch = url.match(/\/gp\/product\/([A-Z0-9]{10})/i);
    if (gpMatch) return gpMatch[1];
    return null;
  }\<close>
\<close>

definition extractASINFromUrl :: "string \<Rightarrow> string option" where
  "extractASINFromUrl raw =
     (case search (first_alt [''/dp/'']) raw of
        Some dpMatch \<Rightarrow> Some dpMatch
      | None \<Rightarrow>
          (case search (first_alt [''/gp/product/'']) raw of
             Some gpMatch \<Rightarrow> Some gpMatch
           | None \<Rightarrow> None))"

section \<open>Deduplicator\<close>

text \<open>
  \<^verbatim>\<open>lines.forEach((url, idx) => {
    const asin = extractASIN(url);
    if (!asin) return;
    if (asinSeen.has(asin)) {
      duplicates.push({ asin, line1: asinSeen.get(asin), line2: idx + 1 });
    } else {
      asinSeen.set(asin, idx + 1);
      asins.push(asin);
      asinToLink.set(asin, url);
    }
  });\<close>
  (the same text in both API variants).  The four collections start empty.
\<close>

record duplicate =
  dup_asin :: string
  line1 :: nat
  line2 :: nat

record registry =
  asinToLink :: "string \<rightharpoonup> string"
  asins :: "string list"
  asinSeen :: "string \<rightharpoonup> nat"
  duplicates :: "duplicate list"

definition empty_registry :: registry where
  "empty_registry = \<lparr>asinToLink = Map.empty, asins = [], asinSeen = Map.empty, duplicates = []\<rparr>"

definition dedup_step :: "(string \<Rightarrow> url option) \<Rightarrow> registry \<Rightarrow> nat \<times> string \<Rightarrow> registry" where
  "dedup_step newURL r p =
     (case p of (idx, raw) \<Rightarrow>
        (let asin = extractASIN newURL raw in
         if \<not> truthy asin then r
         else (case asinSeen r (the asin) of
                 Some l \<Rightarrow>
                   r\<lparr>duplicates := duplicates r @ [\<lparr>dup_asin = the asin, line1 = l, line2 = idx + 1\<rparr>]\<rparr>
               | None \<Rightarrow>
                   r\<lparr>asinSeen := (asinSeen r)(the asin \<mapsto> idx + 1),
                     asins := asins r @ [the asin],
                     asinToLink := (asinToLink r)(the asin \<mapsto> raw)\<rparr>)))"

definition detect_duplicates :: "(string \<Rightarrow> url option) \<Rightarrow> string list \<Rightarrow> registry" where
  "detect_duplicates newURL lines = foldl (dedup_step newURL) empty_registry (enumerate 0 lines)"

section \<open>Batcher\<close>

text \<open>
  \<^verbatim>\<open>const chunk = (arr, size) =>
    Array.from({ length: Math.ceil(arr.length / size) },
               (_, i) => arr.slice(i * size, i * size + size));\<close>
  (the same text in both API variants).

  Array lengths and the batch size are natural numbers.  For a positive size the quotient
  is exact enough for \<^verbatim>\<open>Math.ceil\<close> to give the ceiling of the fraction (array lengths
  are below \<open>2^32\<close>).  For size 0 the quotient is \<^verbatim>\<open>NaN\<close> on an empty array, which
  \<^verbatim>\<open>Array.from\<close> reads as length 0, and \<^verbatim>\<open>Infinity\<close> otherwise, where it throws a
  RangeError.
\<close>

definition slice :: "'a list \<Rightarrow> nat \<Rightarrow> nat \<Rightarrow> 'a list" where
  "slice arr start stop = take (stop - start) (drop start arr)"

definition ceil_div :: "nat \<Rightarrow> nat \<Rightarrow> nat" where
  "ceil_div n d = (n + d - 1) div d"

definition chunk :: "'a list \<Rightarrow> nat \<Rightarrow> js_error + 'a list list" where
  "chunk arr sz =
     (if sz = 0 then (if arr = [] then Inr [] else Inl RangeError)
      else Inr (map (\<lambda>i. slice arr (i * sz) (i * sz + sz)) [0 ..< ceil_div (length arr) sz]))"

section \<open>Numbers and prices\<close>

text \<open>
  \<^verbatim>\<open>Number(x.toFixed(2))\<close>: the multiple of \<open>1/100\<close> nearest to \<open>x\<close>, the one of
  larger magnitude when two are equally near (\<^verbatim>\<open>toFixed\<close> rounds the magnitude and
  puts the sign back).  From \<open>10^21\<close> on \<^verbatim>\<open>toFixed\<close> prints the number itself; a
  double of that size is an integer, which the rounding leaves as it is.
\<close>

definition toFixed2 :: "rat \<Rightarrow> rat" where
  "toFixed2 x =
     (if x < 0 then - (of_int \<lfloor>(- x) * 100 + 1 / 2\<rfloor> / 100)
      else of_int \<lfloor>x * 100 + 1 / 2\<rfloor> / 100)"

text \<open>A number in a boolean position: absent and 0 are falsy (\<^verbatim>\<open>NaN\<close> is not a rational).\<close>

definition truthy_num :: "rat option \<Rightarrow> bool" where
  "truthy_num v = (case v of None \<Rightarrow> False | Some x \<Rightarrow> x \<noteq> 0)"

text \<open>\<^verbatim>\<open>Number.isFinite(v) && v > 0\<close> on a value that is a finite number or absent.\<close>

definition finite_positive :: "rat option \<Rightarrow> bool" where
  "finite_positive v = (case v of None \<Rightarrow> False | Some x \<Rightarrow> 0 < x)"

text \<open>
  \<^verbatim>\<open>function fmtUsd(price) { return price == null ? null : Number(Number(price).toFixed(2)); }\<close>
\<close>

definition fmtUsd :: "rat option \<Rightarrow> rat option" where
  "fmtUsd price = (case price of None \<Rightarrow> None | Some p \<Rightarrow> Some (toFixed2 p))"

text \<open>
  \<^verbatim>\<open>function keepaToUSD(p) { return (!Number.isFinite(p) || p <= 0) ? null : Number((p / 100).toFixed(2)); }\<close>
\<close>

definition keepaToUSD :: "rat option \<Rightarrow> rat option" where
  "keepaToUSD p =
     (case p of
        None \<Rightarrow> None
      | Some x \<Rightarrow> if x \<le> 0 then None else Some (toFixed2 (x / 100)))"

subsection \<open>Text mode\<close>

text \<open>
  The result of \<^verbatim>\<open>parseFloat\<close>.  The cleaned text holds digits, \<^verbatim>\<open>.\<close> and \<^verbatim>\<open>,\<close> only,
  so no white space, sign, exponent or the word \<^verbatim>\<open>Infinity\<close> can stand in it:
  \<^verbatim>\<open>parseFloat\<close> reads the longest prefix of the form digits, digits\<^verbatim>\<open>.\<close>digits or
  \<^verbatim>\<open>.\<close>digits, and gives \<^verbatim>\<open>NaN\<close> when there is none.  A value from
  \<open>2^1024 - 2^970\<close> on rounds to \<^verbatim>\<open>Infinity\<close>.
\<close>

datatype number = Finite rat | NaN | Infinity

definition digit_val :: "char \<Rightarrow> nat" where
  "digit_val c = of_char c - 48"

definition digits_val :: "string \<Rightarrow> nat" where
  "digits_val ds = foldl (\<lambda>n c. 10 * n + digit_val c) 0 ds"

definition parseFloat :: "string \<Rightarrow> number" where
  "parseFloat s =
     (let ip = takeWhile is_digit s;
          rest = dropWhile is_digit s;
          fp = (case rest of [] \<Rightarrow> [] | c # r \<Rightarrow> if c = CHR ''.'' then takeWhile is_digit r else []);
          v = of_nat (digits_val ip) + of_nat (digits_val fp) / 10 ^ length fp
      in if ip = [] \<and> fp = [] then NaN
         else if 2 ^ 1024 - 2 ^ 970 \<le> v then Infinity
         else Finite v)"

text \<open>
  \<^verbatim>\<open>function parsePriceText(text) {
    if (!text) return null;
    const cleaned = text.replace(/[^\d.,]/g, '').replace(',', '');
    const value = parseFloat(cleaned);
    return Number.isFinite(value) ? value : null;
  }\<close>
  The first \<^verbatim>\<open>replace\<close> has a global pattern and removes every other character; the
  second has a string for its pattern and replaces its first occurrence only.
\<close>

definition parsePriceText :: "string option \<Rightarrow> rat option" where
  "parsePriceText text =
     (if \<not> truthy text then None
      else (let cleaned = remove1 CHR '','' (filter (\<lambda>c. is_digit c \<or> c = CHR ''.'' \<or> c = CHR '','') (the text))
            in case parseFloat cleaned of Finite v \<Rightarrow> Some v | NaN \<Rightarrow> None | Infinity \<Rightarrow> None))"

subsection \<open>Double-precision arithmetic\<close>

text \<open>
  The numbers of the language are IEEE 754 doubles: a sign, a significand of 53 bits and
  an exponent.  Between \<open>2^e\<close> and \<open>2^(e+1)\<close> neighbouring doubles are \<open>2^(e-52)\<close> apart,
  and below \<open>2^-1022\<close> they are \<open>2^-1074\<close> apart: \<open>quantum x\<close> is that distance at the
  magnitude of \<open>x\<close> (\<^const>\<open>floorlog\<close> counts the binary digits of the magnitude in units
  of \<open>2^-1074\<close>).  A number literal, a parsed text and the exact result of an arithmetic
  operation are rounded to the nearest double, to the one with the even significand when
  two are equally near: \<open>to_double\<close>.  A value too large for a double (from
  \<open>2^1024 - 2^970\<close> on) is left out here: the text mode rejects such a price, and with
  two prices that are doubles, the current one from 0 to the original, neither the
  difference nor the quotient nor the product is larger than the original or 100.
\<close>

definition quantum :: "rat \<Rightarrow> rat" where
  "quantum x = 2 ^ (floorlog 2 (nat \<lfloor>\<bar>x\<bar> * 2 ^ 1074\<rfloor>) - 53) / 2 ^ 1074"

definition round_even :: "rat \<Rightarrow> int" where
  "round_even y =
     (let f = \<lfloor>y\<rfloor>
      in if y - of_int f < 1 / 2 then f
         else if 1 / 2 < y - of_int f then f + 1
         else if even f then f else f + 1)"

definition to_double :: "rat \<Rightarrow> rat" where
  "to_double x = of_int (round_even (x / quantum x)) * quantum x"

text \<open>The operators \<^verbatim>\<open>-\<close>, \<^verbatim>\<open>/\<close> and \<^verbatim>\<open>*\<close> on two doubles (the divisor is not 0 where
  the code divides).\<close>

definition dsub :: "rat \<Rightarrow> rat \<Rightarrow> rat" where
  "dsub a b = to_double (a - b)"

definition ddiv :: "rat \<Rightarrow> rat \<Rightarrow> rat" where
  "ddiv a b = to_double (a / b)"

definition dmul :: "rat \<Rightarrow> rat \<Rightarrow> rat" where
  "dmul a b = to_double (a * b)"

section \<open>Discount Calculator\<close>

text \<open>
  The browser-driven variant (its result fields are \<^verbatim>\<open>hasDiscount\<close>, \<^verbatim>\<open>pct\<close> and
  \<^verbatim>\<open>save\<close>):
  \<^verbatim>\<open>function computeDiscount(original, current) {
    if (original == null || current == null) {
      return { hasDiscount: false, pct: null, save: null };
    }
    if (current >= original) {
      return { hasDiscount: false, pct: 0, save: 0 };
    }
    const diff = original - current;
    const pct = +(diff / original * 100).toFixed(2);
    const save = +diff.toFixed(2);
    return { hasDiscount: true, pct, save };
  }\<close>
  The prices it is called with come from \<^const>\<open>parsePriceText\<close>, so they are not
  negative, and the division is by a positive original.  The two prices are the doubles
  nearest to the parsed decimal values; the difference, the quotient and the product are
  each rounded to a double before \<^verbatim>\<open>toFixed\<close> rounds to cents.
\<close>

record discount =
  hasDiscount :: bool
  percentage :: "rat option"
  savedAmount :: "rat option"

definition computeDiscount :: "rat option \<Rightarrow> rat option \<Rightarrow> discount" where
  "computeDiscount original current =
     (if original = None \<or> current = None
      then \<lparr>hasDiscount = False, percentage = None, savedAmount = None\<rparr>
      else (let original' = to_double (the original);
                current' = to_double (the current)
            in if original' \<le> current'
               then \<lparr>hasDiscount = False, percentage = Some 0, savedAmount = Some 0\<rparr>
               else (let diff = dsub original' current'
                     in \<lparr>hasDiscount = True,
                         percentage = Some (toFixed2 (dmul (ddiv diff original') 100)),
                         savedAmount = Some (toFixed2 diff)\<rparr>)))"

text \<open>
  The API variants:
  \<^verbatim>\<open>function pct(originalPrice, currentPrice) {
    return (originalPrice && currentPrice) ? ((originalPrice - currentPrice) / originalPrice) * 100 : 0; }\<close>
\<close>

definition pct :: "rat option \<Rightarrow> rat option \<Rightarrow> rat" where
  "pct originalPrice currentPrice =
     (let originalPrice' = map_option to_double originalPrice;
          currentPrice' = map_option to_double currentPrice
      in if truthy_num originalPrice' \<and> truthy_num currentPrice'
         then dmul (ddiv (dsub (the originalPrice') (the currentPrice')) (the originalPrice')) 100
         else 0)"

section \<open>Result Normalizers of the API variants\<close>

text \<open>
  What a normalizer returns (\<open>has_discount\<close> is the field \<^verbatim>\<open>hasDiscount\<close>; the
  signed-API variant has no \<^verbatim>\<open>affiliateLink\<close>), and the row written to the output
  file.
\<close>

record summary =
  source :: string
  asin :: "string option"
  title :: "string option"
  link :: "string option"
  original :: "rat option"
  current :: "rat option"
  discountPct :: rat
  discountAmt :: rat
  needCheckManually :: bool
  imageUrl :: "string option"
  has_discount :: bool
  affiliateLink :: "string option"

record deal =
  ASIN :: "string option"
  Title :: "string option"
  Link :: "string option"
  Original :: "rat option"
  Current :: "rat option"
  Image :: "string option"
  NeedCheckManually :: bool
  HasDiscount :: bool
  DiscountPct :: "rat option"
  YouSave :: "rat option"
  AffiliateLink :: "string option"

text \<open>
  \<^verbatim>\<open>const dealRows = results.map(r => ({
    ASIN: r.asin, Title: r.title || r.asin, Link: r.link,
    Original: fmtUsd(r.original), Current: fmtUsd(r.current), Image: r.imageUrl,
    NeedCheckManually: r.needCheckManually, HasDiscount: r.hasDiscount,
    DiscountPct: r.discountPct != null ? Number(r.discountPct.toFixed(2)) : null,
    YouSave: fmtUsd(r.discountAmt),
    AffiliateLink: r.affiliateLink,   // keyed-API variant only
  }));\<close>
  \<^verbatim>\<open>discountPct\<close> and \<^verbatim>\<open>discountAmt\<close> are numbers in every summary.
\<close>

definition dealRow :: "summary \<Rightarrow> deal" where
  "dealRow r =
     \<lparr>ASIN = asin r, Title = or_else (title r) (asin r), Link = link r,
      Original = fmtUsd (original r), Current = fmtUsd (current r), Image = imageUrl r,
      NeedCheckManually = needCheckManually r, HasDiscount = has_discount r,
      DiscountPct = Some (toFixed2 (discountPct r)),
      YouSave = fmtUsd (Some (discountAmt r)),
      AffiliateLink = affiliateLink r\<rparr>"

text \<open>A value inside a template string.\<close>

definition template :: "string option \<Rightarrow> string" where
  "template v = (case v of None \<Rightarrow> ''undefined'' | Some s \<Rightarrow> s)"

subsection \<open>Signed-API variant\<close>

text \<open>
  The fields that \<^verbatim>\<open>summarizePA\<close> reads of an item: \<^verbatim>\<open>item.ASIN\<close>,
  \<^verbatim>\<open>item.ItemInfo?.Title?.DisplayValue\<close>, \<^verbatim>\<open>item.Offers?.Listings?.[0]?.Price?.Amount\<close>,
  \<^verbatim>\<open>item.Offers?.Listings?.[0]?.SavingBasis?.Amount\<close>, \<^verbatim>\<open>item.Images?.Primary?.Large?.URL\<close>
  and \<^verbatim>\<open>item.DetailPageURL\<close>.

  \<^verbatim>\<open>function summarizePA(item, linkFallback) {
    const title = item.ItemInfo?.Title?.DisplayValue || item.ASIN;
    const listing = item.Offers?.Listings?.[0];
    const current = listing?.Price?.Amount ?? null;
    const original = listing?.SavingBasis?.Amount ?? null;
    const imageUrl = item.Images?.Primary?.Large?.URL || null;
    const link = item.DetailPageURL || linkFallback || (item.ASIN ? `https://www.amazon.com/dp/${item.ASIN}` : null);
    const needCheckManually = !(Number.isFinite(current) && current > 0) || !(Number.isFinite(original) && original > 0);
    const discountPct = pct(original, current);
    const discountAmt = (original && current) ? original - current : 0;
    const hasDiscount = discountAmt > 0;
    return { source: 'paapi', asin: item.ASIN, title, link, original, current, discountPct,
             discountAmt, needCheckManually, imageUrl, hasDiscount };
  }\<close>
\<close>

record pa_item =
  item_ASIN :: "string option"
  Title_DisplayValue :: "string option"
  Price_Amount :: "rat option"
  SavingBasis_Amount :: "rat option"
  Large_URL :: "string option"
  DetailPageURL :: "string option"

definition summarizePA :: "pa_item \<Rightarrow> string option \<Rightarrow> summary" where
  "summarizePA item linkFallback =
     (let title = or_else (Title_DisplayValue item) (item_ASIN item);
          current = Price_Amount item;
          original = SavingBasis_Amount item;
          imageUrl = or_else (Large_URL item) None;
          link = or_else (or_else (DetailPageURL item) linkFallback)
                   (if truthy (item_ASIN item)
                    then Some (''https://www.amazon.com/dp/'' @ template (item_ASIN item))
                    else None);
          needCheckManually = (\<not> finite_positive current \<or> \<not> finite_positive original);
          discountPct = pct original current;
          discountAmt = (if truthy_num (map_option to_double original)
                            \<and> truthy_num (map_option to_double current)
                         then dsub (to_double (the original)) (to_double (the current))
                         else 0);
          hasDiscount = (0 < discountAmt)
      in \<lparr>source = ''paapi'', asin = item_ASIN item, title = title, link = link,
          original = original, current = current, discountPct = discountPct,
          discountAmt = discountAmt, needCheckManually = needCheckManually,
          imageUrl = imageUrl, has_discount = hasDiscount, affiliateLink = None\<rparr>)"

subsection \<open>Keyed-API variant\<close>

text \<open>
  The configuration: \<^verbatim>\<open>AFFILIATE_TAG\<close> (the empty string when the environment has none)
  and \<^verbatim>\<open>AFFILIATE_DOMAIN\<close>.  The fields that \<^verbatim>\<open>summarizeKeepa\<close> reads of a product:
  \<^verbatim>\<open>product.asin\<close>, \<^verbatim>\<open>product.title\<close>, \<^verbatim>\<open>product.stats?.current?.[0]\<close>,
  \<^verbatim>\<open>product.stats?.current?.[4]\<close>, \<^verbatim>\<open>product.stats?.avg90?.[0]\<close> and
  \<^verbatim>\<open>product.images?.[0]?.l\<close>.

  \<^verbatim>\<open>function buildAffiliateLink(asin) {
    if (!AFFILIATE_TAG) { return `https://${AFFILIATE_DOMAIN}/dp/${asin}`; }
    return `https://${AFFILIATE_DOMAIN}/dp/${asin}?tag=${AFFILIATE_TAG}`;
  }
  function getKeepaImageUrl(product, size = 'l') {
    const img = product.images?.[0];
    if (!img) return null;
    const name = img[size];
    return name ? `https://m.media-amazon.com/images/I/${name}` : null;
  }
  function summarizeKeepa(product, link) {
    const title = product.title || product.asin;
    const c = product.stats?.current?.[0];
    const o = product.stats?.current?.[4];
    const avg = product.stats?.avg90?.[0];
    const hasC = Number.isFinite(c) && c > 0;
    const hasO = Number.isFinite(o) && o > 0;
    const needCheckManually = !hasC || !hasO;
    const current = keepaToUSD(c);
    const original = keepaToUSD(o ?? avg ?? null);
    const discountPct = pct(original, current);
    const discountAmt = (original && current) ? original - current : 0;
    const hasDiscount = discountAmt > 0;
    const affiliateLink = buildAffiliateLink(product.asin);
    return { source: 'keepa', asin: product.asin, title, link, original, current, discountPct,
             discountAmt, needCheckManually, imageUrl: getKeepaImageUrl(product), hasDiscount,
             affiliateLink };
  }\<close>
\<close>

record keepa_config =
  AFFILIATE_TAG :: string
  AFFILIATE_DOMAIN :: string

record keepa_product =
  product_asin :: "string option"
  product_title :: "string option"
  stats_current_0 :: "rat option"
  stats_current_4 :: "rat option"
  stats_avg90_0 :: "rat option"
  images_0_l :: "string option"

definition buildAffiliateLink :: "keepa_config \<Rightarrow> string option \<Rightarrow> string" where
  "buildAffiliateLink cfg a =
     (if AFFILIATE_TAG cfg = []
      then ''https://'' @ AFFILIATE_DOMAIN cfg @ ''/dp/'' @ template a
      else ''https://'' @ AFFILIATE_DOMAIN cfg @ ''/dp/'' @ template a @ ''?tag='' @ AFFILIATE_TAG cfg)"

definition getKeepaImageUrl :: "keepa_product \<Rightarrow> string option" where
  "getKeepaImageUrl product =
     (if truthy (images_0_l product)
      then Some (''https://m.media-amazon.com/images/I/'' @ the (images_0_l product))
      else None)"

text \<open>\<^verbatim>\<open>a ?? b\<close>.\<close>

definition nullish :: "'a option \<Rightarrow> 'a option \<Rightarrow> 'a option" where
  "nullish a b = (case a of None \<Rightarrow> b | Some x \<Rightarrow> Some x)"

definition summarizeKeepa :: "keepa_config \<Rightarrow> keepa_product \<Rightarrow> string option \<Rightarrow> summary" where
  "summarizeKeepa cfg product lnk =
     (let title = or_else (product_title product) (product_asin product);
          c = stats_current_0 product;
          o' = stats_current_4 product;
          avg = stats_avg90_0 product;
          hasC = finite_positive c;
          hasO = finite_positive o';
          needCheckManually = (\<not> hasC \<or> \<not> hasO);
          current = keepaToUSD c;
          original = keepaToUSD (nullish o' (nullish avg None));
          discountPct = pct original current;
          discountAmt = (if truthy_num (map_option to_double original)
                            \<and> truthy_num (map_option to_double current)
                         then dsub (to_double (the original)) (to_double (the current))
                         else 0);
          hasDiscount = (0 < discountAmt)
      in \<lparr>source = ''keepa'', asin = product_asin product, title = title, link = lnk,
          original = original, current = current, discountPct = discountPct,
          discountAmt = discountAmt, needCheckManually = needCheckManually,
          imageUrl = getKeepaImageUrl product, has_discount = hasDiscount,
          affiliateLink = Some (buildAffiliateLink cfg (product_asin product))\<rparr>)"

section \<open>Browser-driven variant\<close>

text \<open>
  What one visit of the page renderer gives \<^verbatim>\<open>scrapeAmazonProduct\<close>:
  whether a call that the function does not guard rejects (\<^verbatim>\<open>page.goto\<close>, a wait, the
  simulated interaction, the screenshot), the text of the title element, the texts of the
  three locators of the current price and of the two locators of the original price (each
  absent when the call rejects, which the function catches, or when there is no text), and
  whether one of the selectors of the main image finds an element.
\<close>

record page_obs =
  page_rejects :: bool
  productTitle :: "string option"
  price_aok :: "string option"
  price_color :: "string option"
  price_core :: "string option"
  price_text :: "string option"
  price_strike :: "string option"
  main_image :: bool

text \<open>A number inside a template string, and \<^verbatim>\<open>path.join(dir, file)\<close> of a plain file name.\<close>

fun decimal :: "nat \<Rightarrow> string" where
  "decimal n =
     (if n < 10 then [''0123456789'' ! n]
      else decimal (n div 10) @ [''0123456789'' ! (n mod 10)])"

definition path_join :: "string \<Rightarrow> string \<Rightarrow> string" where
  "path_join dir file = dir @ ''/'' @ file"

text \<open>
  \<^verbatim>\<open>async function screenshotMainImage(page, outputDir, asin, index) {
    const selectors = [ ... ];
    for (const sel of selectors) {
      const el = await page.$(sel);
      if (el) {
        const fileName = `${index + 1}-${asin ?? 'noasin'}.png`;
        const filePath = path.join(outputDir, fileName);
        await el.screenshot({ path: filePath });
        return filePath;
      }
    }
    return null;
  }\<close>
\<close>

definition screenshotMainImage :: "page_obs \<Rightarrow> string \<Rightarrow> string option \<Rightarrow> nat \<Rightarrow> string option" where
  "screenshotMainImage obs outputDir a index =
     (if main_image obs
      then Some (path_join outputDir
                   (decimal (index + 1) @ ''-'' @ (case a of None \<Rightarrow> ''noasin'' | Some x \<Rightarrow> x) @ ''.png''))
      else None)"

text \<open>
  \<^verbatim>\<open>async function scrapeAmazonProduct(page, url, screenshotDir, index) {
    const asin = extractASINFromUrl(url);
    await page.goto(url, { waitUntil: 'domcontentloaded', timeout: 60000 });
    ...
    const rawTitle = (await page.locator('span#productTitle').textContent().catch(...))?.trim() || null;
    const title = rawTitle || null;
    const currentPriceText = (await ... .catch(() => null)) || (await ... .catch(() => null))
                             || (await ... .catch(() => null));
    const current = parsePriceText(currentPriceText);
    const originalPriceText = (await ... .catch(() => null)) || (await ... .catch(() => null));
    let original = parsePriceText(originalPriceText);
    if (original == null && current != null) original = current;
    const pictureRef = (await screenshotMainImage(page, screenshotDir, asin, index)) ?? null;
    const { hasDiscount, pct, save } = computeDiscount(original, current);
    const needCheck = !title || !pictureRef || original == null || current == null || asin == null;
    const affiliateLink = asin && AFFILIATE_TAG ? `https://www.amazon.com/dp/${asin}?tag=${AFFILIATE_TAG}`
                        : asin ? `https://www.amazon.com/dp/${asin}` : null;
    return { ASIN: asin, Title: title, Link: url, Original: original, Current: current,
             Image: pictureRef, NeedCheckManually: needCheck, HasDiscount: hasDiscount,
             DiscountPct: pct, YouSave: save, AffiliateLink: affiliateLink };
  }\<close>
  The first argument of the model is \<^verbatim>\<open>AFFILIATE_TAG\<close>.
\<close>

definition scrapeAmazonProduct :: "string \<Rightarrow> page_obs \<Rightarrow> string \<Rightarrow> string \<Rightarrow> nat \<Rightarrow> js_error + deal" where
  "scrapeAmazonProduct tag obs raw screenshotDir index =
     (let a = extractASINFromUrl raw in
      if page_rejects obs then Inl Rejected
      else
        (let rawTitle = or_else (map_option trim (productTitle obs)) None;
             title = or_else rawTitle None;
             currentPriceText = or_else (or_else (price_aok obs) (price_color obs)) (price_core obs);
             current = parsePriceText currentPriceText;
             originalPriceText = or_else (price_text obs) (price_strike obs);
             original0 = parsePriceText originalPriceText;
             original = (if original0 = None \<and> current \<noteq> None then current else original0);
             pictureRef = screenshotMainImage obs screenshotDir a index;
             d = computeDiscount original current;
             needCheck = (\<not> truthy title \<or> \<not> truthy pictureRef \<or> original = None
                          \<or> current = None \<or> a = None);
             affiliateLink =
               (if truthy a \<and> tag \<noteq> [] then Some (''https://www.amazon.com/dp/'' @ the a @ ''?tag='' @ tag)
                else if truthy a then Some (''https://www.amazon.com/dp/'' @ the a)
                else None)
         in Inr \<lparr>ASIN = a, Title = title, Link = Some raw, Original = original, Current = current,
                 Image = pictureRef, NeedCheckManually = needCheck, HasDiscount = hasDiscount d,
                 DiscountPct = percentage d, YouSave = savedAmount d,
                 AffiliateLink = affiliateLink\<rparr>))"

text \<open>
  The loop of \<^verbatim>\<open>main\<close>.  A visit is an input line with what the renderer does when the
  line is visited: the observation of the page, and whether the delay after the scrape
  (\<^verbatim>\<open>page.waitForTimeout\<close>, inside the \<^verbatim>\<open>try\<close>) rejects.

  \<^verbatim>\<open>const urls = txt.split(/\r?\n/).map((l) => l.trim()).filter((l) => l.length > 0);
  if (urls.length === 0) { console.log('No URLs found in input file.'); return; }
  ...
  const deals = [];
  for (let i = 0; i < urls.length; i++) {
    const url = urls[i];
    try {
      const host = new URL(url).hostname;
      if (!host.includes('amazon.')) {
        deals.push({ ASIN: null, Title: null, Link: url, Original: null, Current: null, Image: null,
                     NeedCheckManually: true, HasDiscount: false, DiscountPct: null, YouSave: null,
                     AffiliateLink: null });
        continue;
      }
      const deal = await scrapeAmazonProduct(page, url, screenshotDir, i);
      deals.push(deal);
      await page.waitForTimeout(randomInt(3000, 10000));
    } catch {
      deals.push({ ASIN: extractASINFromUrl(url), Title: null, Link: url, Original: null,
                   Current: null, Image: null, NeedCheckManually: true, HasDiscount: false,
                   DiscountPct: null, YouSave: null, AffiliateLink: null });
    }
  }
  await browser.close();
  const sortedDeals = deals.sort((a, b) => (b.DiscountPct ?? 0) - (a.DiscountPct ?? 0));\<close>
\<close>

record visit =
  input_line :: string
  page :: page_obs
  delay_rejects :: bool

definition pass_through :: "string option \<Rightarrow> string \<Rightarrow> deal" where
  "pass_through a raw =
     \<lparr>ASIN = a, Title = None, Link = Some raw, Original = None, Current = None, Image = None,
      NeedCheckManually = True, HasDiscount = False, DiscountPct = None, YouSave = None,
      AffiliateLink = None\<rparr>"

definition main_step ::
  "(string \<Rightarrow> url option) \<Rightarrow> string \<Rightarrow> string \<Rightarrow> deal list \<Rightarrow> nat \<times> visit \<Rightarrow> deal list" where
  "main_step newURL tag screenshotDir deals p =
     (case p of (i, v) \<Rightarrow>
        (let raw = trim (input_line v) in
         case newURL raw of
           None \<Rightarrow> deals @ [pass_through (extractASINFromUrl raw) raw]
         | Some u \<Rightarrow>
             if \<not> str_includes (hostname u) ''amazon.'' then deals @ [pass_through None raw]
             else (case scrapeAmazonProduct tag (page v) raw screenshotDir i of
                     Inl e \<Rightarrow> deals @ [pass_through (extractASINFromUrl raw) raw]
                   | Inr d \<Rightarrow>
                       if delay_rejects v
                       then (deals @ [d]) @ [pass_through (extractASINFromUrl raw) raw]
                       else deals @ [d])))"

definition non_blank :: "visit list \<Rightarrow> visit list" where
  "non_blank vs = filter (\<lambda>v. trim (input_line v) \<noteq> []) vs"

definition scrape_main ::
  "(string \<Rightarrow> url option) \<Rightarrow> string \<Rightarrow> string \<Rightarrow> visit list \<Rightarrow> deal list option" where
  "scrape_main newURL tag screenshotDir vs =
     (let urls = non_blank vs in
      if urls = [] then None
      else Some (sort_key (\<lambda>d. - (case DiscountPct d of None \<Rightarrow> 0 | Some x \<Rightarrow> x))
                   (foldl (main_step newURL tag screenshotDir) [] (enumerate 0 urls))))"

section \<open>Rate Limiter\<close>

text \<open>
  Time is in milliseconds.  \<^verbatim>\<open>Date.now()\<close> reads the wall clock \<open>clock\<close>; the variable
  \<^verbatim>\<open>lastFetchAt\<close> of the module starts at 0.  Two traces are kept for the properties:
  \<open>starts\<close>, the values recorded in the variable, and \<open>waits\<close>, the delays passed to
  \<^verbatim>\<open>sleep\<close>.  \<^verbatim>\<open>sleep(ms)\<close> is \<^verbatim>\<open>setTimeout\<close>: the timer is set to the delay, a delay
  below 1 or above \<open>2^31 - 1\<close> being replaced by 1.  The timer does not run on the clock
  that \<^verbatim>\<open>Date.now()\<close> reads: at the second reading of the limiter the clock shows the
  first reading, plus the delay of the timer if one was set, plus \<open>drift\<close>.  The drift is
  what the scheduler adds and the statements take, and what the wall clock is adjusted by
  meanwhile; it is negative when the timer resumes the caller early by the wall clock,
  so that the second reading can be less than the first plus the delay.

  \<^verbatim>\<open>let lastFetchAt = 0;
  async function throttlePaapi() {
    const now = Date.now();
    const elapsed = now - lastFetchAt;
    if (elapsed < SLEEP_BETWEEN_BATCHES_MS) {
      const waitMs = SLEEP_BETWEEN_BATCHES_MS - elapsed;
      await sleep(waitMs);
    }
    lastFetchAt = Date.now();
  }\<close>
  (\<^verbatim>\<open>throttleKeepa\<close> has the same text).
\<close>

record timeline =
  clock :: int
  lastFetchAt :: int
  starts :: "int list"
  waits :: "int list"

definition advance :: "int \<Rightarrow> timeline \<Rightarrow> timeline" where
  "advance d s = s\<lparr>clock := clock s + d\<rparr>"

definition setTimeout_delay :: "int \<Rightarrow> int" where
  "setTimeout_delay ms = (if ms < 1 \<or> 2147483647 < ms then 1 else ms)"

definition sleep :: "int \<Rightarrow> timeline \<Rightarrow> timeline" where
  "sleep ms s = s\<lparr>clock := clock s + setTimeout_delay ms, waits := waits s @ [ms]\<rparr>"

definition throttle :: "int \<Rightarrow> int \<Rightarrow> timeline \<Rightarrow> timeline" where
  "throttle I drift s =
     (let now = clock s;
          elapsed = now - lastFetchAt s;
          s' = advance drift (if elapsed < I then sleep (I - elapsed) s else s)
      in s'\<lparr>lastFetchAt := clock s', starts := starts s' @ [clock s']\<rparr>)"

definition SLEEP_BETWEEN_BATCHES_MS_paapi :: int where
  "SLEEP_BETWEEN_BATCHES_MS_paapi = 1250"

definition SLEEP_BETWEEN_BATCHES_MS_keepa :: int where
  "SLEEP_BETWEEN_BATCHES_MS_keepa = 60000"

definition throttlePaapi :: "int \<Rightarrow> timeline \<Rightarrow> timeline" where
  "throttlePaapi = throttle SLEEP_BETWEEN_BATCHES_MS_paapi"

definition throttleKeepa :: "int \<Rightarrow> timeline \<Rightarrow> timeline" where
  "throttleKeepa = throttle SLEEP_BETWEEN_BATCHES_MS_keepa"

text \<open>
  The batch loop of \<^verbatim>\<open>processTxtFile\<close> and the file loop of \<^verbatim>\<open>main\<close>, as far as
  time goes.  For each batch the environment gives what the clock moves by before the
  call of the limiter, the drift inside the limiter, what the clock moves by while the
  batch is fetched and written, and whether the fetch or the write throws; a throw ends
  the run (\<open>Inl\<close>).  Nothing but the limiter assigns \<^verbatim>\<open>lastFetchAt\<close>.
\<close>

record batch_env =
  before :: int
  drift :: int
  work :: int
  throws :: bool

fun process_batches :: "int \<Rightarrow> batch_env list \<Rightarrow> timeline \<Rightarrow> timeline + timeline" where
  "process_batches I [] s = Inr s"
| "process_batches I (b # bs) s =
     (let s' = advance (work b) (throttle I (drift b) (advance (before b) s))
      in if throws b then Inl s' else process_batches I bs s')"

fun process_files :: "int \<Rightarrow> batch_env list list \<Rightarrow> timeline \<Rightarrow> timeline + timeline" where
  "process_files I [] s = Inr s"
| "process_files I (f # fs) s =
     (case process_batches I f s of Inl s' \<Rightarrow> Inl s' | Inr s' \<Rightarrow> process_files I fs s')"

definition run :: "int \<Rightarrow> int \<Rightarrow> batch_env list list \<Rightarrow> timeline + timeline" where
  "run I t0 files = process_files I files \<lparr>clock = t0, lastFetchAt = 0, starts = [], waits = []\<rparr>"

definition final :: "timeline + timeline \<Rightarrow> timeline" where
  "final r = (case r of Inl s \<Rightarrow> s | Inr s \<Rightarrow> s)"

section \<open>Request Signer\<close>

text \<open>
  The hash functions are the platform's: \<open>hmac key data\<close> and \<open>sha256 data\<close> are the
  raw digests, and \<^verbatim>\<open>digest('hex')\<close> is \<open>hex\<close> of the raw digest, so that
  \<^verbatim>\<open>sha256Hex(data)\<close> is \<open>hex (sha256 data)\<close>.  \<^verbatim>\<open>JSON.stringify\<close> is the argument
  \<open>stringify\<close>, and \<open>isoString\<close> is \<^verbatim>\<open>new Date().toISOString()\<close>.
\<close>

record crypto =
  hmac :: "string \<Rightarrow> string \<Rightarrow> string"
  sha256 :: "string \<Rightarrow> string"

definition hex_byte :: "char \<Rightarrow> string" where
  "hex_byte c = [''0123456789abcdef'' ! (of_char c div 16), ''0123456789abcdef'' ! (of_char c mod 16)]"

definition hex :: "string \<Rightarrow> string" where
  "hex bytes = concat (map hex_byte bytes)"

text \<open>\<^verbatim>\<open>arr.join(sep)\<close>.\<close>

fun join :: "string \<Rightarrow> string list \<Rightarrow> string" where
  "join sep [] = []"
| "join sep [x] = x"
| "join sep (x # y # ys) = x @ sep @ join sep (y # ys)"

text \<open>\<^verbatim>\<open>.replace(/[:-]|\.\d{3}/g, '')\<close>.\<close>

fun strip_date_punct :: "string \<Rightarrow> string" where
  "strip_date_punct [] = []"
| "strip_date_punct (c # cs) =
     (if c = CHR '':'' \<or> c = CHR ''-'' then strip_date_punct cs
      else if c = CHR ''.'' \<and> 3 \<le> length cs \<and> list_all is_digit (take 3 cs)
           then strip_date_punct (drop 3 cs)
      else c # strip_date_punct cs)"

text \<open>
  \<^verbatim>\<open>function buildAuthHeaders({ accessKey, secretKey, region, service, host, amzTarget, path, payload }) {
    const method = 'POST';
    const content = JSON.stringify(payload);
    const now = new Date();
    const amzDate = now.toISOString().replace(/[:-]|\.\d{3}/g, '').slice(0, 15) + 'Z';
    const dateStamp = amzDate.slice(0, 8);
    const canonicalHeaders =
      `content-encoding:amz-1.0\ncontent-type:application/json; charset=utf-8\nhost:${host}\nx-amz-date:${amzDate}\nx-amz-target:${amzTarget}\n`;
    const signedHeaders = 'content-encoding;content-type;host;x-amz-date;x-amz-target';
    const canonicalRequest = [method, path, '', canonicalHeaders, signedHeaders, sha256Hex(content)].join('\n');
    const algorithm = 'AWS4-HMAC-SHA256';
    const credentialScope = `${dateStamp}/${region}/${service}/aws4_request`;
    const stringToSign = [algorithm, amzDate, credentialScope, sha256Hex(canonicalRequest)].join('\n');
    const kDate = hmac(Buffer.from('AWS4' + secretKey, 'utf8'), dateStamp);
    const kRegion = hmac(kDate, region);
    const kService = hmac(kRegion, service);
    const kSigning = hmac(kService, 'aws4_request');
    const signature = crypto.createHmac('sha256', kSigning).update(stringToSign).digest('hex');
    const authHeader = `${algorithm} Credential=${accessKey}/${credentialScope}, SignedHeaders=${signedHeaders}, Signature=${signature}`;
    return { method,
             headers: { 'content-encoding': 'amz-1.0', 'content-type': 'application/json; charset=utf-8',
                        'host': host, 'x-amz-date': amzDate, 'x-amz-target': amzTarget,
                        'Authorization': authHeader },
             body: content };
  }\<close>
\<close>

record 'p sign_args =
  accessKey :: string
  secretKey :: string
  region :: string
  service :: string
  host :: string
  amzTarget :: string
  path :: string
  payload :: 'p

record request =
  http_method :: string
  headers :: "(string \<times> string) list"
  body :: string

definition amzDate_of :: "string \<Rightarrow> string" where
  "amzDate_of isoString = take 15 (strip_date_punct isoString) @ ''Z''"

definition buildAuthHeaders ::
  "crypto \<Rightarrow> ('p \<Rightarrow> string) \<Rightarrow> string \<Rightarrow> 'p sign_args \<Rightarrow> request" where
  "buildAuthHeaders lib stringify isoString args =
     (let http_method' = ''POST'';
          content = stringify (payload args);
          amzDate = amzDate_of isoString;
          dateStamp = take 8 amzDate;
          canonicalHeaders =
            ''content-encoding:amz-1.0'' @ [CHR 0x0A]
            @ ''content-type:application/json; charset=utf-8'' @ [CHR 0x0A]
            @ ''host:'' @ host args @ [CHR 0x0A]
            @ ''x-amz-date:'' @ amzDate @ [CHR 0x0A]
            @ ''x-amz-target:'' @ amzTarget args @ [CHR 0x0A];
          signedHeaders = ''content-encoding;content-type;host;x-amz-date;x-amz-target'';
          canonicalRequest =
            join [CHR 0x0A]
              [http_method', path args, [], canonicalHeaders, signedHeaders, hex (sha256 lib content)];
          algorithm = ''AWS4-HMAC-SHA256'';
          credentialScope = dateStamp @ ''/'' @ region args @ ''/'' @ service args @ ''/aws4_request'';
          stringToSign =
            join [CHR 0x0A] [algorithm, amzDate, credentialScope, hex (sha256 lib canonicalRequest)];
          kDate = hmac lib (''AWS4'' @ secretKey args) dateStamp;
          kRegion = hmac lib kDate (region args);
          kService = hmac lib kRegion (service args);
          kSigning = hmac lib kService ''aws4_request'';
          signature = hex (hmac lib kSigning stringToSign);
          authHeader =
            algorithm @ '' Credential='' @ accessKey args @ ''/'' @ credentialScope
            @ '', SignedHeaders='' @ signedHeaders @ '', Signature='' @ signature
      in \<lparr>http_method = http_method',
          headers = [(''content-encoding'', ''amz-1.0''),
                     (''content-type'', ''application/json; charset=utf-8''),
                     (''host'', host args),
                     (''x-amz-date'', amzDate),
                     (''x-amz-target'', amzTarget args),
                     (''Authorization'', authHeader)],
          body = content\<rparr>)"

section \<open>Reference definitions for the properties\<close>

text \<open>
  The registry that the Deduplicator is to build, read off the input list: the elements
  of a list once each, at their first occurrence and in first-seen order; the 1-based
  number of the first line with a given identifier; the reference on that line; and, for
  every line whose identifier stands on an earlier line, a duplicate record with the
  identifier, its first line and this line.
\<close>

fun first_seen :: "'a list \<Rightarrow> 'a list" where
  "first_seen [] = []"
| "first_seen (x # xs) = x # filter (\<lambda>y. y \<noteq> x) (first_seen xs)"

fun first_line :: "(string \<Rightarrow> string option) \<Rightarrow> string list \<Rightarrow> string \<Rightarrow> nat option" where
  "first_line ex [] a = None"
| "first_line ex (u # us) a = (if ex u = Some a then Some 1 else map_option Suc (first_line ex us a))"

definition first_reference :: "(string \<Rightarrow> string option) \<Rightarrow> string list \<Rightarrow> string \<Rightarrow> string option" where
  "first_reference ex lines a = map_option (\<lambda>l. lines ! (l - 1)) (first_line ex lines a)"

definition later_occurrences :: "(string \<Rightarrow> string option) \<Rightarrow> string list \<Rightarrow> duplicate list" where
  "later_occurrences ex lines =
     concat (map (\<lambda>j. case ex (lines ! j) of
                         None \<Rightarrow> []
                       | Some a \<Rightarrow>
                           (case first_line ex lines a of
                              None \<Rightarrow> []
                            | Some l \<Rightarrow> if l < j + 1 then [\<lparr>dup_asin = a, line1 = l, line2 = j + 1\<rparr>] else []))
                 [0 ..< length lines])"

text \<open>
  The rules of the Identifier Extractor, by positions of the text.  A marker followed by
  the group: the text starts with the marker, whatever the case of its letters, and goes
  on with 10 letters or digits.  The leftmost position, from 0 to the end of the text,
  at which a rule applies gives its result.  The product rule tries the four markers at
  each position; the segment rule wants \<^verbatim>\<open>/\<close>, the group, and then the end of the
  text or one of \<^verbatim>\<open>/\<close>, \<^verbatim>\<open>?\<close>, \<^verbatim>\<open>#\<close>; the parameter rule takes the value of the
  parameter \<^verbatim>\<open>asin\<close>, or of \<^verbatim>\<open>ASIN\<close> when there is none or it is empty, if it is
  10 letters or digits.
\<close>

fun first_some :: "'a option list \<Rightarrow> 'a option" where
  "first_some [] = None"
| "first_some (None # xs) = first_some xs"
| "first_some (Some x # xs) = Some x"

definition marked_group :: "string \<Rightarrow> string \<Rightarrow> string option" where
  "marked_group marker t =
     (if length marker \<le> length t \<and> toUpperCase (take (length marker) t) = toUpperCase marker
      then alnum10 (drop (length marker) t)
      else None)"

definition leftmost :: "(nat \<Rightarrow> 'a option) \<Rightarrow> string \<Rightarrow> 'a option" where
  "leftmost f s = first_some (map f [0 ..< Suc (length s)])"

definition product_markers :: "string list" where
  "product_markers = [''/dp/'', ''/gp/product/'', ''/gp/aw/d/'', ''/gp/offer-listing/'']"

definition rule_product :: "string \<Rightarrow> string option" where
  "rule_product s = leftmost (\<lambda>i. first_some (map (\<lambda>m. marked_group m (drop i s)) product_markers)) s"

definition rule_bare_segment :: "string \<Rightarrow> string option" where
  "rule_bare_segment s =
     leftmost (\<lambda>i. case marked_group ''/'' (drop i s) of
                     None \<Rightarrow> None
                   | Some g \<Rightarrow>
                       if i + 11 = length s \<or> (i + 11 < length s \<and> s ! (i + 11) \<in> set ''/?#'')
                       then Some g else None) s"

definition rule_asin_parameter :: "url \<Rightarrow> string option" where
  "rule_asin_parameter u =
     (case or_else (map_of (searchParams u) ''asin'') (map_of (searchParams u) ''ASIN'') of
        None \<Rightarrow> None
      | Some q \<Rightarrow> if length q = 10 \<and> list_all alnum_ci q then Some q else None)"

text \<open>A canonical identifier is made of upper-case letters and digits.\<close>

definition upper_alnum :: "char \<Rightarrow> bool" where
  "upper_alnum c = (is_upper c \<or> is_digit c)"

text \<open>
  An input for the examples: the first line parses as a URL, the other two make
  \<^verbatim>\<open>new URL\<close> throw (they have no scheme).
\<close>

definition example_newURL :: "string \<Rightarrow> url option" where
  "example_newURL s =
     (if s = ''https://a.co/dp/B0AAAAAAA1''
      then Some \<lparr>hostname = ''a.co'', pathname = ''/dp/B0AAAAAAA1'', searchParams = []\<rparr>
      else None)"

definition example_lines :: "string list" where
  "example_lines = [''https://a.co/dp/B0AAAAAAA1'', ''no link'', ''a.co/dp/b0aaaaaaa1'']"

text \<open>
  Rounding to two decimals as the specification states it: the nearest multiple of
  \<open>1/100\<close>, a tie going up.
\<close>

definition round2 :: "rat \<Rightarrow> rat" where
  "round2 x = of_int (round (x * 100)) / 100"

text \<open>
  The Price Normalizer in text mode as the specification states it: every character but digits,
  \<^verbatim>\<open>.\<close> and \<^verbatim>\<open>,\<close> is stripped, every comma is removed, the rest is parsed, a result
  that is not finite is absent, and an accepted value is rounded to two decimals.
\<close>

definition keep_price_char :: "char \<Rightarrow> bool" where
  "keep_price_char c = (is_digit c \<or> c = CHR ''.'' \<or> c = CHR '','')"

definition claimed_price :: "string option \<Rightarrow> rat option" where
  "claimed_price text =
     (case text of
        None \<Rightarrow> None
      | Some t \<Rightarrow>
          (case parseFloat (filter (\<lambda>c. c \<noteq> CHR '','') (filter keep_price_char t)) of
             Finite v \<Rightarrow> Some (round2 v)
           | NaN \<Rightarrow> None
           | Infinity \<Rightarrow> None))"

text \<open>
  The Discount Calculator as the specification states it, on exact numbers.
\<close>

definition claimed_discount :: "rat option \<Rightarrow> rat option \<Rightarrow> discount" where
  "claimed_discount orig cur =
     (case (orig, cur) of
        (Some ov, Some cv) \<Rightarrow>
          if ov \<le> cv then \<lparr>hasDiscount = False, percentage = Some 0, savedAmount = Some 0\<rparr>
          else \<lparr>hasDiscount = True, percentage = Some (round2 ((ov - cv) / ov * 100)),
                savedAmount = Some (round2 (ov - cv))\<rparr>
      | _ \<Rightarrow> \<lparr>hasDiscount = False, percentage = None, savedAmount = None\<rparr>)"

text \<open>
  The same cases on the numbers of the language: the prices are doubles, and the
  difference, the quotient and the product of the percentage are each rounded to a double
  before the rounding to two decimals.
\<close>

definition double_percentage :: "rat \<Rightarrow> rat \<Rightarrow> rat" where
  "double_percentage ov cv = round2 (dmul (ddiv (dsub ov cv) ov) 100)"

definition double_discount :: "rat option \<Rightarrow> rat option \<Rightarrow> discount" where
  "double_discount orig cur =
     (case (orig, cur) of
        (Some ov, Some cv) \<Rightarrow>
          if to_double ov \<le> to_double cv
          then \<lparr>hasDiscount = False, percentage = Some 0, savedAmount = Some 0\<rparr>
          else \<lparr>hasDiscount = True,
                percentage = Some (double_percentage (to_double ov) (to_double cv)),
                savedAmount = Some (round2 (dsub (to_double ov) (to_double cv)))\<rparr>
      | _ \<Rightarrow> \<lparr>hasDiscount = False, percentage = None, savedAmount = None\<rparr>)"

text \<open>
  What the rows of the API variants give: with an absent price, or with equal prices, no
  discount, percentage 0 and saved amount 0; with a positive current price below the
  original one the discount above.
\<close>

definition api_discount :: "rat option \<Rightarrow> rat option \<Rightarrow> deal \<Rightarrow> bool" where
  "api_discount orig cur row =
     (case (orig, cur) of
        (Some ov, Some cv) \<Rightarrow>
          if 0 < to_double cv \<and> to_double cv < to_double ov
          then HasDiscount row
               \<and> DiscountPct row = Some (double_percentage (to_double ov) (to_double cv))
               \<and> YouSave row = Some (round2 (dsub (to_double ov) (to_double cv)))
          else if to_double cv = to_double ov
          then \<not> HasDiscount row \<and> DiscountPct row = Some 0 \<and> YouSave row = Some 0
          else True
      | _ \<Rightarrow> \<not> HasDiscount row \<and> DiscountPct row = Some 0 \<and> YouSave row = Some 0)"

text \<open>Items, products and a page for the examples.\<close>

definition example_item :: pa_item where
  "example_item =
     \<lparr>item_ASIN = Some ''B0AAAAAAA1'', Title_DisplayValue = Some ''Lamp'', Price_Amount = Some 15,
      SavingBasis_Amount = Some 20, Large_URL = None, DetailPageURL = None\<rparr>"

definition example_item_no_basis :: pa_item where
  "example_item_no_basis = example_item\<lparr>SavingBasis_Amount := None\<rparr>"

definition example_config :: keepa_config where
  "example_config = \<lparr>AFFILIATE_TAG = [], AFFILIATE_DOMAIN = ''www.amazon.com''\<rparr>"

definition example_product :: keepa_product where
  "example_product =
     \<lparr>product_asin = Some ''B0AAAAAAA1'', product_title = Some ''Lamp'', stats_current_0 = Some 1999,
      stats_current_4 = None, stats_avg90_0 = Some 2599, images_0_l = None\<rparr>"

definition example_url :: string where
  "example_url = ''https://www.amazon.com/dp/B0AAAAAAA1''"

definition example_obs :: page_obs where
  "example_obs =
     \<lparr>page_rejects = False, productTitle = Some '' Lamp '', price_aok = Some ''$15.00'',
      price_color = None, price_core = None, price_text = Some ''$20.00'', price_strike = None,
      main_image = True\<rparr>"

definition example_deal :: deal where
  "example_deal =
     \<lparr>ASIN = Some ''B0AAAAAAA1'', Title = Some ''Lamp'', Link = Some example_url,
      Original = Some 20, Current = Some 15, Image = Some ''shots/1-B0AAAAAAA1.png'',
      NeedCheckManually = False, HasDiscount = True, DiscountPct = Some 25, YouSave = Some 5,
      AffiliateLink = Some ''https://www.amazon.com/dp/B0AAAAAAA1''\<rparr>"

definition example_visit :: visit where
  "example_visit = \<lparr>input_line = example_url, page = example_obs, delay_rejects = True\<rparr>"

definition example_parser :: "string \<Rightarrow> url option" where
  "example_parser s =
     (if s = ''https://www.amazon.com/dp/B0AAAAAAA1''
      then Some \<lparr>hostname = ''www.amazon.com'', pathname = ''/dp/B0AAAAAAA1'', searchParams = []\<rparr>
      else None)"

text \<open>
  Start times that are at least the interval apart, each from the one before it, as the
  specification states it; start times that are so up to a tolerance; and a timeline
  whose trace is spaced up to the tolerance, with the variable holding the last start
  recorded, which is not ahead of the clock.
\<close>

definition spaced :: "int \<Rightarrow> int list \<Rightarrow> bool" where
  "spaced I ts = successively (\<lambda>a b. a + I \<le> b) ts"

definition spaced_within :: "int \<Rightarrow> int \<Rightarrow> int list \<Rightarrow> bool" where
  "spaced_within tol I ts = successively (\<lambda>a b. a + I \<le> b + tol) ts"

definition paced :: "int \<Rightarrow> int \<Rightarrow> timeline \<Rightarrow> bool" where
  "paced tol I s =
     (spaced_within tol I (starts s)
      \<and> (starts s = [] \<or> (last (starts s) = lastFetchAt s \<and> lastFetchAt s \<le> clock s)))"

text \<open>
  A batch during which the wall clock does not step back between the calls of the
  limiter, and the timer resumes the caller early by the tolerance at most.
\<close>

definition steady :: "int \<Rightarrow> batch_env \<Rightarrow> bool" where
  "steady tol b = (0 \<le> before b \<and> 0 \<le> work b \<and> - tol \<le> drift b)"

text \<open>
  A batch whose timer is 3 ms late, and one whose timer resumes the caller 1 ms early by
  the wall clock.
\<close>

definition example_batch :: batch_env where
  "example_batch = \<lparr>before = 0, drift = 3, work = 200, throws = False\<rparr>"

definition early_batch :: batch_env where
  "early_batch = \<lparr>before = 0, drift = - 1, work = 200, throws = False\<rparr>"

text \<open>
  The parts of a signed request as the signing scheme names them: the canonical header
  block (each header as name, colon, value and a newline), the list of the signed header
  names joined by \<^verbatim>\<open>;\<close>, the canonical request (method, path, empty query, header
  block, signed-header list and the hex hash of the body, one per line), the credential
  scope, the string to sign, the signing key derived by the chain of HMACs, and the
  authorization header.  Header names are compared by character codes.
\<close>

definition newline :: string where
  "newline = [CHR 0x0A]"

fun name_less :: "string \<Rightarrow> string \<Rightarrow> bool" where
  "name_less [] [] = False"
| "name_less [] (y # ys) = True"
| "name_less (x # xs) [] = False"
| "name_less (x # xs) (y # ys) = ((of_char x :: nat) < of_char y \<or> (x = y \<and> name_less xs ys))"

definition canonical_headers :: "(string \<times> string) list \<Rightarrow> string" where
  "canonical_headers hs = concat (map (\<lambda>(k, v). k @ '':'' @ v @ newline) hs)"

definition signed_headers :: "(string \<times> string) list \<Rightarrow> string" where
  "signed_headers hs = join '';'' (map fst hs)"

definition canonical_request :: "crypto \<Rightarrow> string \<Rightarrow> string \<Rightarrow> (string \<times> string) list \<Rightarrow> string \<Rightarrow> string" where
  "canonical_request lib meth pth hs content =
     meth @ newline @ pth @ newline @ [] @ newline @ canonical_headers hs @ newline
     @ signed_headers hs @ newline @ hex (sha256 lib content)"

definition credential_scope :: "string \<Rightarrow> string \<Rightarrow> string \<Rightarrow> string" where
  "credential_scope dateStamp reg serv = dateStamp @ ''/'' @ reg @ ''/'' @ serv @ ''/aws4_request''"

definition string_to_sign :: "crypto \<Rightarrow> string \<Rightarrow> string \<Rightarrow> string \<Rightarrow> string \<Rightarrow> string" where
  "string_to_sign lib algorithm timestamp scope creq =
     algorithm @ newline @ timestamp @ newline @ scope @ newline @ hex (sha256 lib creq)"

definition signing_key :: "crypto \<Rightarrow> string \<Rightarrow> string \<Rightarrow> string \<Rightarrow> string \<Rightarrow> string" where
  "signing_key lib secret dateStamp reg serv =
     hmac lib (hmac lib (hmac lib (hmac lib (''AWS4'' @ secret) dateStamp) reg) serv) ''aws4_request''"

definition authorization :: "string \<Rightarrow> string \<Rightarrow> string \<Rightarrow> string \<Rightarrow> string \<Rightarrow> string" where
  "authorization algorithm access scope signed signature =
     algorithm @ '' Credential='' @ access @ ''/'' @ scope @ '', SignedHeaders='' @ signed
     @ '', Signature='' @ signature"

definition example_crypto :: crypto where
  "example_crypto = \<lparr>hmac = (\<lambda>key data. key @ data), sha256 = (\<lambda>data. data)\<rparr>"

definition example_args :: "string sign_args" where
  "example_args =
     \<lparr>accessKey = ''AK'', secretKey = ''SK'', region = ''us-east-1'', service = ''ProductAdvertisingAPI'',
      host = ''webservices.amazon.com'',
      amzTarget = ''com.amazon.paapi5.v1.ProductAdvertisingAPIv1.GetItems'',
      path = ''/paapi5/getitems'', payload = ''{}''\<rparr>"

chapter \<open>Properties\<close>

section \<open>Batcher: the batches partition the input\<close>

lemma slice_chunk: "slice arr (i * m) (i * m + m) = take m (drop (i * m) arr)"
  by (simp add: slice_def)

lemma concat_slices: "concat (map (\<lambda>i. take m (drop (i * m) arr)) [0 ..< k]) = take (k * m) arr"
proof (induction k)
  case 0
  show ?case by simp
next
  case (Suc k)
  have "take (k * m) arr @ take m (drop (k * m) arr) = take (k * m + m) arr"
    by (simp add: take_add)
  with Suc show ?case by (simp add: add.commute)
qed

lemma ceil_div_covers: "0 < m \<Longrightarrow> n \<le> ceil_div n m * m"
proof -
  assume m: "0 < m"
  have "(n + m - 1) mod m < m" using m by simp
  moreover have "(n + m - 1) div m * m + (n + m - 1) mod m = n + m - 1" by simp
  ultimately have "n + m - 1 < (n + m - 1) div m * m + m" by linarith
  then show ?thesis using m by (simp add: ceil_div_def)
qed

lemma ceil_div_0: "ceil_div 0 m = 0"
  by (cases m) (simp_all add: ceil_div_def)

text \<open>
  Claim C8.  For every input list and every positive batch size \<open>M\<close>, \<^const>\<open>chunk\<close>
  returns (it does not throw) an ordered sequence of slices whose concatenation is the
  input list, each of length at most \<open>M\<close>, with lengths that sum to the length of the
  input, the slice of index \<open>i\<close> being the elements from \<open>i * M\<close> up to
  \<open>i * M + M\<close>; on the empty list it returns the empty sequence.
\<close>

theorem chunk_partition:
  assumes "0 < M"
  shows "(\<exists>bs. chunk xs M = Inr bs \<and> concat bs = xs \<and> list_all (\<lambda>b. length b \<le> M) bs
            \<and> sum_list (map length bs) = length xs
            \<and> bs = map (\<lambda>i. slice xs (i * M) (i * M + M)) [0 ..< length bs])
         \<and> chunk ([] :: 'a list) M = Inr []"
proof -
  let ?bs = "map (\<lambda>i. take M (drop (i * M) xs)) [0 ..< ceil_div (length xs) M]"
  have c: "chunk xs M = Inr ?bs"
    using assms by (simp add: chunk_def slice_chunk)
  have cc: "concat ?bs = xs"
    using ceil_div_covers [OF assms, of "length xs"] by (simp add: concat_slices)
  have le: "list_all (\<lambda>b. length b \<le> M) ?bs"
    by (simp add: list_all_iff)
  have "sum_list (map length ?bs) = length (concat ?bs)"
    by (simp only: length_concat)
  then have sm: "sum_list (map length ?bs) = length xs"
    by (simp only: cc)
  have e: "chunk ([] :: 'a list) M = Inr []"
    using assms by (simp add: chunk_def ceil_div_0)
  have sl: "?bs = map (\<lambda>i. slice xs (i * M) (i * M + M)) [0 ..< length ?bs]"
    by (simp add: slice_chunk)
  from c cc le sm sl e show ?thesis by blast
qed

theorem chunk_partition_witness:
  "(0::nat) < 3 \<and>
   (\<exists>bs. chunk [1, 2, 3, 4, 5, 6, 7 :: nat] 3 = Inr bs \<and> concat bs = [1, 2, 3, 4, 5, 6, 7]
      \<and> list_all (\<lambda>b. length b \<le> 3) bs
      \<and> sum_list (map length bs) = length [1, 2, 3, 4, 5, 6, 7 :: nat]
      \<and> bs = map (\<lambda>i. slice [1, 2, 3, 4, 5, 6, 7] (i * 3) (i * 3 + 3)) [0 ..< length bs])
   \<and> chunk ([] :: nat list) 3 = Inr []"
proof -
  have h: "(0::nat) < 3" by simp
  show ?thesis using h chunk_partition [OF h, of "[1, 2, 3, 4, 5, 6, 7 :: nat]"] by blast
qed

lemma chunk_example: "chunk [1, 2, 3, 4, 5, 6, 7 :: nat] 3 = Inr [[1, 2, 3], [4, 5, 6], [7]]"
  by (simp add: chunk_def slice_def ceil_div_def upt_rec)

section \<open>Identifier Extractor: the shape of an identifier\<close>

lemma alnum10_shape: "alnum10 s = Some g \<Longrightarrow> length g = 10 \<and> list_all alnum_ci g"
  by (auto simp: alnum10_def split: if_splits)

lemma first_alt_shape: "first_alt ps s = Some g \<Longrightarrow> length g = 10 \<and> list_all alnum_ci g"
  by (induction ps) (auto split: option.splits dest: alnum10_shape)

lemma search_Some: "search m s = Some g \<Longrightarrow> \<exists>t. suffix t s \<and> m t = Some g"
proof (induction s)
  case Nil
  then show ?case by auto
next
  case (Cons c cs)
  show ?case
  proof (cases "m (c # cs)")
    case None
    with Cons obtain t where "suffix t cs" "m t = Some g" by auto
    then show ?thesis by (auto simp: suffix_Cons)
  next
    case (Some r)
    with Cons.prems show ?thesis by auto
  qed
qed

lemma bare_segment_at_shape: "bare_segment_at s = Some g \<Longrightarrow> length g = 10 \<and> list_all alnum_ci g"
  by (auto simp: bare_segment_at_def split: option.splits list.splits if_splits dest: alnum10_shape)

lemma upper_char_alnum: "alnum_ci c \<Longrightarrow> upper_alnum (upper_char c)"
  by (auto simp: alnum_ci_def upper_alnum_def is_upper_def is_lower_def is_digit_def upper_char_def)

lemma toUpperCase_shape:
  "length g = 10 \<and> list_all alnum_ci g \<Longrightarrow> length (toUpperCase g) = 10 \<and> list_all upper_alnum (toUpperCase g)"
  by (auto simp: toUpperCase_def list_all_iff upper_char_alnum)

lemma extractASIN_shape:
  assumes "extractASIN newURL raw = Some a"
  shows "length a = 10 \<and> list_all upper_alnum a"
proof (cases "newURL raw")
  case None
  with assms obtain m where m: "match_product_raw raw = Some m" and a: "a = toUpperCase m"
    by (auto simp: extractASIN_def split: option.splits)
  from m obtain t where "first_alt raw_alternatives t = Some m"
    unfolding match_product_raw_def by (blast dest: search_Some)
  then show ?thesis unfolding a by (intro toUpperCase_shape first_alt_shape)
next
  case (Some u)
  show ?thesis
  proof (cases "match_product_path (pathname u)")
    case m1: (Some m)
    with Some assms have a: "a = toUpperCase m" by (simp add: extractASIN_def)
    from m1 obtain t where "first_alt path_alternatives t = Some m"
      unfolding match_product_path_def by (blast dest: search_Some)
    then show ?thesis unfolding a by (intro toUpperCase_shape first_alt_shape)
  next
    case n1: None
    show ?thesis
    proof (cases "match_bare_segment (pathname u)")
      case m2: (Some m)
      with Some n1 assms have a: "a = toUpperCase m" by (simp add: extractASIN_def)
      from m2 obtain t where "bare_segment_at t = Some m"
        unfolding match_bare_segment_def by (blast dest: search_Some)
      then show ?thesis unfolding a by (intro toUpperCase_shape bare_segment_at_shape)
    next
      case n2: None
      let ?qp = "or_else (searchParams_get u ''asin'') (searchParams_get u ''ASIN'')"
      from Some n1 n2 assms have t: "test_asin (the ?qp)" and a: "a = toUpperCase (the ?qp)"
        by (auto simp: extractASIN_def Let_def split: if_splits)
      from t show ?thesis unfolding a by (intro toUpperCase_shape) (simp add: test_asin_def)
    qed
  qed
qed

lemma extractASIN_truthy: "truthy (extractASIN newURL raw) \<longleftrightarrow> extractASIN newURL raw \<noteq> None"
proof (cases "extractASIN newURL raw")
  case None
  then show ?thesis by (simp add: truthy_def)
next
  case (Some a)
  from extractASIN_shape [OF Some] have "a \<noteq> []" by auto
  with Some show ?thesis by (simp add: truthy_def)
qed

lemma example_line1: "extractASIN example_newURL ''https://a.co/dp/B0AAAAAAA1'' = Some ''B0AAAAAAA1''"
  by code_simp

lemma example_line2: "extractASIN example_newURL ''no link'' = None"
  by code_simp

lemma example_line3: "extractASIN example_newURL ''a.co/dp/b0aaaaaaa1'' = Some ''B0AAAAAAA1''"
  by code_simp

section \<open>Identifier Extractor: the rules in their order\<close>

lemma ci_prefix_eq:
  "ci_prefix p t =
     (if length p \<le> length t \<and> toUpperCase (take (length p) t) = toUpperCase p
      then Some (drop (length p) t) else None)"
proof (induction p t rule: ci_prefix.induct)
  case (1 s)
  show ?case by (simp add: toUpperCase_def)
next
  case (2 p ps)
  show ?case by simp
next
  case (3 p ps c cs)
  then show ?case by (auto simp: toUpperCase_def)
qed

lemma first_alt_eq: "first_alt alts t = first_some (map (\<lambda>m. marked_group m t) alts)"
proof (induction alts)
  case Nil
  show ?case by simp
next
  case (Cons p ps)
  show ?case
  proof (cases "marked_group p t")
    case None
    with Cons show ?thesis
      by (auto simp: marked_group_def ci_prefix_eq split: option.splits if_splits)
  next
    case (Some g)
    then show ?thesis
      by (auto simp: marked_group_def ci_prefix_eq split: option.splits if_splits)
  qed
qed

lemma upt_Suc_shift: "[0 ..< Suc (Suc n)] = 0 # map Suc [0 ..< Suc n]"
  by (simp only: upt_conv_Cons [of 0 "Suc (Suc n)"] zero_less_Suc map_Suc_upt)

lemma search_eq: "search m s = leftmost (\<lambda>i. m (drop i s)) s"
proof (induction s)
  case Nil
  show ?case by (cases "m []") (simp_all add: leftmost_def)
next
  case (Cons c cs)
  have "leftmost (\<lambda>i. m (drop i (c # cs))) (c # cs)
        = first_some (m (c # cs) # map (\<lambda>i. m (drop i cs)) [0 ..< Suc (length cs)])"
    unfolding leftmost_def by (simp only: length_Cons upt_Suc_shift list.map map_map o_def drop0 drop_Suc_Cons)
  also have "\<dots> = (case m (c # cs) of None \<Rightarrow> leftmost (\<lambda>i. m (drop i cs)) cs | Some r \<Rightarrow> Some r)"
    by (cases "m (c # cs)") (simp_all add: leftmost_def)
  finally show ?case using Cons by (simp split: option.splits)
qed

lemma match_product_path_eq: "match_product_path s = rule_product s"
  by (simp add: match_product_path_def rule_product_def search_eq first_alt_eq
      path_alternatives_def product_markers_def)

lemma match_product_raw_eq: "match_product_raw s = rule_product s"
  by (simp add: match_product_raw_def rule_product_def search_eq first_alt_eq
      raw_alternatives_def product_markers_def)


lemma first_some_single: "first_some [x] = x"
  by (cases x) simp_all

lemma bare_segment_at_eq:
  "bare_segment_at (drop i s) =
     (case marked_group ''/'' (drop i s) of
        None \<Rightarrow> None
      | Some g \<Rightarrow>
          if i + 11 = length s \<or> (i + 11 < length s \<and> s ! (i + 11) \<in> set ''/?#'')
          then Some g else None)"
proof (cases "marked_group ''/'' (drop i s)")
  case None
  then show ?thesis
    by (auto simp: bare_segment_at_def marked_group_def ci_prefix_eq split: option.splits if_splits)
next
  case (Some g)
  then have p: "ci_prefix ''/'' (drop i s) = Some (drop (Suc i) s)"
    and g: "alnum10 (drop (Suc i) s) = Some g"
    by (auto simp: marked_group_def ci_prefix_eq split: if_splits)
  from g have len: "i + 11 \<le> length s"
    by (auto simp: alnum10_def split: if_splits)
  have d: "drop 10 (drop (Suc i) s) = drop (i + 11) s" by (simp add: add.commute)
  show ?thesis
  proof (cases "drop (i + 11) s")
    case Nil
    with len have "i + 11 = length s" by simp
    with Some p g Nil d show ?thesis by (simp add: bare_segment_at_def)
  next
    case (Cons c r)
    then have lt: "i + 11 < length s" by (cases "i + 11 < length s") simp_all
    from Cons have "s ! (i + 11) = c" by (metis nth_via_drop)
    with Some p g Cons d lt show ?thesis by (simp add: bare_segment_at_def)
  qed
qed

lemma match_bare_segment_eq: "match_bare_segment s = rule_bare_segment s"
  by (simp only: match_bare_segment_def rule_bare_segment_def search_eq bare_segment_at_eq)

lemma asin_parameter_eq:
  "(let qp = or_else (searchParams_get u ''asin'') (searchParams_get u ''ASIN'')
    in if truthy qp \<and> test_asin (the qp) then Some (toUpperCase (the qp)) else None)
   = map_option toUpperCase (rule_asin_parameter u)"
  by (auto simp: rule_asin_parameter_def searchParams_get_def Let_def truthy_def test_asin_def
      split: option.splits)

lemma extractASIN_eq:
  "extractASIN newURL raw =
     map_option toUpperCase
       (case newURL raw of
          Some u \<Rightarrow> first_some [rule_product (pathname u), rule_bare_segment (pathname u),
                                rule_asin_parameter u]
        | None \<Rightarrow> rule_product raw)"
proof (cases "newURL raw")
  case None
  then show ?thesis
    by (simp add: extractASIN_def match_product_raw_eq split: option.splits)
next
  case (Some u)
  show ?thesis
  proof (cases "rule_product (pathname u)")
    case m1: (Some g)
    with Some show ?thesis by (simp add: extractASIN_def match_product_path_eq)
  next
    case n1: None
    show ?thesis
    proof (cases "rule_bare_segment (pathname u)")
      case m2: (Some g)
      with Some n1 show ?thesis
        by (simp add: extractASIN_def match_product_path_eq match_bare_segment_eq)
    next
      case n2: None
      have "extractASIN newURL raw =
          (let qp = or_else (searchParams_get u ''asin'') (searchParams_get u ''ASIN'')
           in if truthy qp \<and> test_asin (the qp) then Some (toUpperCase (the qp)) else None)"
        using Some n1 n2
        by (simp add: extractASIN_def match_product_path_eq match_bare_segment_eq)
      also have "\<dots> = map_option toUpperCase (rule_asin_parameter u)"
        by (rule asin_parameter_eq)
      finally show ?thesis using Some n1 n2 by (simp add: first_some_single)
    qed
  qed
qed

lemma extractASINFromUrl_eq:
  "extractASINFromUrl raw =
     first_some [leftmost (\<lambda>i. marked_group ''/dp/'' (drop i raw)) raw,
                 leftmost (\<lambda>i. marked_group ''/gp/product/'' (drop i raw)) raw]"
proof -
  have one: "search (first_alt [m]) raw = leftmost (\<lambda>i. marked_group m (drop i raw)) raw" for m
  proof -
    have "first_alt [m] t = marked_group m t" for t
      by (cases "marked_group m t") (simp_all add: first_alt_eq)
    then show ?thesis by (simp add: search_eq)
  qed
  show ?thesis
    by (cases "leftmost (\<lambda>i. marked_group ''/dp/'' (drop i raw)) raw";
        cases "leftmost (\<lambda>i. marked_group ''/gp/product/'' (drop i raw)) raw")
       (simp_all add: extractASINFromUrl_def one)
qed

text \<open>
  Claim C4, as amended.  For every URL string and every behaviour of the URL parser,
  \<^const>\<open>extractASIN\<close> of the API variants returns the upper-cased group of the first
  rule that applies, in this order: on a URL that parses, the product rule on the path,
  the segment rule on the path, the parameter rule (the parameter named \<^verbatim>\<open>asin\<close> or
  \<^verbatim>\<open>ASIN\<close>, no other spelling); on a string that does not parse, the product rule on
  the raw string; it returns absent when none applies, and it returns in every case (the
  exception of the parser is a case of the function).  What it returns is 10 upper-case
  letters or digits.  \<^const>\<open>extractASINFromUrl\<close> of the browser-driven variant applies
  the markers \<^verbatim>\<open>/dp/\<close> and then \<^verbatim>\<open>/gp/product/\<close> to the raw string and returns the
  group as it is written.
\<close>

theorem extractASIN_rules:
  "extractASIN newURL raw =
     map_option toUpperCase
       (case newURL raw of
          Some u \<Rightarrow> first_some [rule_product (pathname u), rule_bare_segment (pathname u),
                                rule_asin_parameter u]
        | None \<Rightarrow> rule_product raw)
   \<and> (case extractASIN newURL raw of None \<Rightarrow> True | Some a \<Rightarrow> length a = 10 \<and> list_all upper_alnum a)
   \<and> extractASINFromUrl raw =
       first_some [leftmost (\<lambda>i. marked_group ''/dp/'' (drop i raw)) raw,
                   leftmost (\<lambda>i. marked_group ''/gp/product/'' (drop i raw)) raw]"
proof -
  have "case extractASIN newURL raw of None \<Rightarrow> True | Some a \<Rightarrow> length a = 10 \<and> list_all upper_alnum a"
    by (cases "extractASIN newURL raw") (simp_all add: extractASIN_shape)
  with extractASIN_eq [of newURL raw] extractASINFromUrl_eq [of raw] show ?thesis by blast
qed

theorem extractASIN_rules_witness:
  "map_option toUpperCase (rule_product ''a.co/dp/b0aaaaaaa1'') = Some ''B0AAAAAAA1''"
  using extractASIN_rules [of example_newURL "''a.co/dp/b0aaaaaaa1''"]
  by (simp add: example_line3 example_newURL_def)

text \<open>
  The claim as it was stated fails on the browser-driven extractor, which does not change
  the case of the group and knows two markers only, and on a parameter whose name is
  spelled \<^verbatim>\<open>Asin\<close>.
\<close>

lemma lower_case_link: "extractASINFromUrl ''https://www.amazon.com/dp/b000111222'' = Some ''b000111222''"
  by code_simp

lemma mobile_link: "extractASINFromUrl ''https://www.amazon.com/gp/aw/d/B000111222'' = None"
  by code_simp

lemma mixed_case_parameter:
  "extractASIN (\<lambda>_. Some \<lparr>hostname = ''www.amazon.com'', pathname = ''/x'',
                            searchParams = [(''Asin'', ''B000111222'')]\<rparr>)
     ''https://www.amazon.com/x?Asin=B000111222'' = None"
  by code_simp

lemma upper_name_parameter:
  "extractASIN (\<lambda>_. Some \<lparr>hostname = ''www.amazon.com'', pathname = ''/x'',
                            searchParams = [(''ASIN'', ''b000111222'')]\<rparr>)
     ''https://www.amazon.com/x?ASIN=b000111222'' = Some ''B000111222''"
  by code_simp

theorem extractASIN_counterexample:
  "extractASINFromUrl ''https://www.amazon.com/dp/b000111222'' = Some ''b000111222''
   \<and> ''b000111222'' \<noteq> toUpperCase ''b000111222''
   \<and> extractASINFromUrl ''https://www.amazon.com/gp/aw/d/B000111222'' = None
   \<and> extractASIN (\<lambda>_. Some \<lparr>hostname = ''www.amazon.com'', pathname = ''/x'',
                               searchParams = [(''Asin'', ''B000111222'')]\<rparr>)
        ''https://www.amazon.com/x?Asin=B000111222'' = None"
proof -
  have "''b000111222'' \<noteq> toUpperCase ''b000111222''" by code_simp
  with lower_case_link mobile_link mixed_case_parameter show ?thesis by blast
qed

section \<open>Deduplicator: the registry of a list of references\<close>

lemma set_first_seen: "set (first_seen xs) = set xs"
  by (induction xs) auto

lemma distinct_first_seen: "distinct (first_seen xs)"
  by (induction xs) (auto simp: set_first_seen)

lemma first_seen_snoc:
  "first_seen (xs @ [x]) = (if x \<in> set xs then first_seen xs else first_seen xs @ [x])"
  by (induction xs) (auto simp: set_first_seen)

lemma first_line_snoc:
  "first_line ex (us @ [u]) a =
     (case first_line ex us a of
        Some l \<Rightarrow> Some l
      | None \<Rightarrow> if ex u = Some a then Some (length us + 1) else None)"
  by (induction us) (auto split: option.splits)

lemma first_line_None: "first_line ex us a = None \<longleftrightarrow> (\<forall>x \<in> set us. ex x \<noteq> Some a)"
  by (induction us) auto

lemma first_line_bound: "first_line ex us a = Some l \<Longrightarrow> 1 \<le> l \<and> l \<le> length us"
  by (induction us arbitrary: l) (auto split: if_splits)

lemma first_line_hit: "first_line ex us a = Some l \<Longrightarrow> ex (us ! (l - 1)) = Some a"
proof (induction us arbitrary: l)
  case Nil
  then show ?case by simp
next
  case (Cons u us)
  show ?case
  proof (cases "ex u = Some a")
    case True
    with Cons.prems show ?thesis by simp
  next
    case False
    with Cons.prems obtain k where k: "first_line ex us a = Some k" and l: "l = Suc k"
      by auto
    from first_line_bound [OF k] have "1 \<le> k" by simp
    with Cons.IH [OF k] l show ?thesis by (cases k) simp_all
  qed
qed

lemma first_line_least:
  "j < length us \<Longrightarrow> ex (us ! j) = Some a \<Longrightarrow> \<exists>l. first_line ex us a = Some l \<and> l \<le> j + 1"
proof (induction us arbitrary: j)
  case Nil
  then show ?case by simp
next
  case (Cons u us)
  show ?case
  proof (cases "ex u = Some a")
    case True
    then show ?thesis by simp
  next
    case False
    with Cons.prems obtain i where j: "j = Suc i" by (cases j) auto
    with Cons.prems have "i < length us" "ex (us ! i) = Some a" by auto
    from Cons.IH [OF this] obtain l where "first_line ex us a = Some l" "l \<le> i + 1" by blast
    with False j show ?thesis by simp
  qed
qed

lemma map_filter_snoc:
  "List.map_filter f (xs @ [x]) = List.map_filter f xs @ (case f x of None \<Rightarrow> [] | Some y \<Rightarrow> [y])"
  by (simp add: List.map_filter_def split: option.splits)


lemma later_occurrences_snoc:
  "later_occurrences ex (us @ [u]) =
     later_occurrences ex us @
       (case ex u of
          None \<Rightarrow> []
        | Some a \<Rightarrow>
            (case first_line ex us a of
               None \<Rightarrow> []
             | Some l \<Rightarrow> [\<lparr>dup_asin = a, line1 = l, line2 = length us + 1\<rparr>]))"
proof -
  let ?f = "\<lambda>ls j. case ex (ls ! j) of
                         None \<Rightarrow> []
                       | Some a \<Rightarrow>
                           (case first_line ex ls a of
                              None \<Rightarrow> []
                            | Some l \<Rightarrow> if l < j + 1 then [\<lparr>dup_asin = a, line1 = l, line2 = j + 1\<rparr>] else [])"
  have old: "?f (us @ [u]) j = ?f us j" if "j < length us" for j
  proof (cases "ex (us ! j)")
    case None
    with that show ?thesis by (simp add: nth_append)
  next
    case (Some a)
    from first_line_least [of j us ex a] that Some obtain l where "first_line ex us a = Some l" by blast
    with that Some show ?thesis by (simp add: nth_append first_line_snoc)
  qed
  have new: "?f (us @ [u]) (length us) =
      (case ex u of None \<Rightarrow> [] | Some a \<Rightarrow>
            (case first_line ex us a of None \<Rightarrow> []
             | Some l \<Rightarrow> [\<lparr>dup_asin = a, line1 = l, line2 = length us + 1\<rparr>]))"
  proof (cases "ex u")
    case None
    then show ?thesis by simp
  next
    case (Some a)
    show ?thesis
    proof (cases "first_line ex us a")
      case None
      with Some show ?thesis by (simp add: first_line_snoc)
    next
      case (Some l)
      from first_line_bound [OF Some] have "l < length us + 1" by simp
      with Some \<open>ex u = Some a\<close> show ?thesis by (simp add: first_line_snoc)
    qed
  qed
  have m: "map (?f (us @ [u])) [0 ..< length us] = map (?f us) [0 ..< length us]"
    using old by (intro map_cong) auto
  have "later_occurrences ex (us @ [u]) =
          concat (map (?f (us @ [u])) [0 ..< length us]) @ ?f (us @ [u]) (length us)"
    unfolding later_occurrences_def by simp
  also have "\<dots> = concat (map (?f us) [0 ..< length us]) @ ?f (us @ [u]) (length us)"
    by (simp only: m)
  also have "\<dots> = later_occurrences ex us @ ?f (us @ [u]) (length us)"
    unfolding later_occurrences_def by (rule refl)
  finally show ?thesis by (simp only: new)
qed


lemma set_map_filter: "set (List.map_filter f xs) = {y. \<exists>x \<in> set xs. f x = Some y}"
  by (induction xs) (auto simp: map_filter_simps split: option.splits)

lemma first_line_Some_iff: "first_line ex us a \<noteq> None \<longleftrightarrow> a \<in> set (List.map_filter ex us)"
  by (auto simp: first_line_None set_map_filter)

lemma detect_duplicates_snoc:
  "detect_duplicates newURL (ls @ [l]) = dedup_step newURL (detect_duplicates newURL ls) (length ls, l)"
  by (simp add: detect_duplicates_def enumerate_append_eq)

lemma dedup_step_cases:
  "dedup_step newURL r (idx, raw) =
     (case extractASIN newURL raw of
        None \<Rightarrow> r
      | Some a \<Rightarrow>
          (case asinSeen r a of
             Some k \<Rightarrow> r\<lparr>duplicates := duplicates r @ [\<lparr>dup_asin = a, line1 = k, line2 = idx + 1\<rparr>]\<rparr>
           | None \<Rightarrow> r\<lparr>asinSeen := (asinSeen r)(a \<mapsto> idx + 1), asins := asins r @ [a],
                        asinToLink := (asinToLink r)(a \<mapsto> raw)\<rparr>))"
  using extractASIN_truthy [of newURL raw]
  by (auto simp: dedup_step_def Let_def split: option.splits)

lemma first_reference_None: "first_line ex us a = None \<Longrightarrow> first_reference ex us a = None"
  by (simp add: first_reference_def)

lemma first_reference_snoc:
  "first_reference ex (us @ [u]) a =
     (case first_line ex us a of
        Some l \<Rightarrow> first_reference ex us a
      | None \<Rightarrow> if ex u = Some a then Some u else None)"
proof (cases "first_line ex us a")
  case None
  then show ?thesis by (simp add: first_reference_def first_line_snoc)
next
  case (Some l)
  from first_line_bound [OF Some] have "l - 1 < length us" by arith
  with Some show ?thesis by (simp add: first_reference_def first_line_snoc nth_append)
qed

lemma detect_duplicates_invariant:
  "asins (detect_duplicates newURL ls) = first_seen (List.map_filter (extractASIN newURL) ls)
   \<and> asinSeen (detect_duplicates newURL ls) = first_line (extractASIN newURL) ls
   \<and> asinToLink (detect_duplicates newURL ls) = first_reference (extractASIN newURL) ls
   \<and> duplicates (detect_duplicates newURL ls) = later_occurrences (extractASIN newURL) ls"
proof (induction ls rule: rev_induct)
  case Nil
  show ?case
    by (simp add: detect_duplicates_def empty_registry_def List.map_filter_simps
        later_occurrences_def first_reference_def fun_eq_iff)
next
  case (snoc l ls)
  let ?ex = "extractASIN newURL"
  let ?r = "detect_duplicates newURL ls"
  from snoc have A: "asins ?r = first_seen (List.map_filter ?ex ls)"
    and S: "asinSeen ?r = first_line ?ex ls"
    and L: "asinToLink ?r = first_reference ?ex ls"
    and D: "duplicates ?r = later_occurrences ?ex ls" by simp_all
  show ?case
  proof (cases "?ex l")
    case None
    then have r: "detect_duplicates newURL (ls @ [l]) = ?r"
      by (simp add: detect_duplicates_snoc dedup_step_cases)
    have "first_line ?ex (ls @ [l]) = first_line ?ex ls"
      using None by (auto simp: fun_eq_iff first_line_snoc split: option.splits)
    moreover have "first_reference ?ex (ls @ [l]) = first_reference ?ex ls"
      using None by (auto simp: fun_eq_iff first_reference_snoc first_reference_None split: option.splits)
    ultimately show ?thesis
      using None A S L D by (simp add: r map_filter_snoc later_occurrences_snoc)
  next
    case (Some a)
    show ?thesis
    proof (cases "first_line ?ex ls a")
      case seen: (Some k)
      then have r: "detect_duplicates newURL (ls @ [l]) =
          ?r\<lparr>duplicates := duplicates ?r @ [\<lparr>dup_asin = a, line1 = k, line2 = length ls + 1\<rparr>]\<rparr>"
        using Some S by (simp add: detect_duplicates_snoc dedup_step_cases)
      from seen have mem: "a \<in> set (List.map_filter ?ex ls)"
        using first_line_Some_iff [of ?ex ls a] by simp
      have "first_line ?ex (ls @ [l]) = first_line ?ex ls"
        using Some seen by (auto simp: fun_eq_iff first_line_snoc split: option.splits)
      moreover have "first_reference ?ex (ls @ [l]) = first_reference ?ex ls"
        using Some seen by (auto simp: fun_eq_iff first_reference_snoc first_reference_None split: option.splits)
      ultimately show ?thesis
        using Some seen mem A S L D
        by (simp add: r map_filter_snoc later_occurrences_snoc first_seen_snoc)
    next
      case fresh: None
      then have r: "detect_duplicates newURL (ls @ [l]) =
          ?r\<lparr>asinSeen := (asinSeen ?r)(a \<mapsto> length ls + 1), asins := asins ?r @ [a],
             asinToLink := (asinToLink ?r)(a \<mapsto> l)\<rparr>"
        using Some S by (simp add: detect_duplicates_snoc dedup_step_cases)
      from fresh have mem: "a \<notin> set (List.map_filter ?ex ls)"
        using first_line_Some_iff [of ?ex ls a] by simp
      have "first_line ?ex (ls @ [l]) = (first_line ?ex ls)(a \<mapsto> length ls + 1)"
        using Some fresh by (auto simp: fun_eq_iff first_line_snoc split: option.splits)
      moreover have "first_reference ?ex (ls @ [l]) = (first_reference ?ex ls)(a \<mapsto> l)"
        using Some fresh by (auto simp: fun_eq_iff first_reference_snoc first_reference_None split: option.splits)
      ultimately show ?thesis
        using Some fresh mem A S L D
        by (simp add: r map_filter_snoc later_occurrences_snoc first_seen_snoc)
    qed
  qed
qed

text \<open>
  Claim C7.  For every ordered list of references, the Deduplicator registers each
  extractable identifier once, at its first occurrence and in first-seen order
  (\<open>asins\<close>), with the 1-based number of its first line (\<open>asinSeen\<close>) and its
  first-seen reference (\<open>asinToLink\<close>); for every later line with an identifier that
  is registered already it emits one duplicate record with the identifier, the line it
  was registered on and the current line, and registers nothing.
\<close>

theorem detect_duplicates_registry:
  "asins (detect_duplicates newURL lines) = first_seen (List.map_filter (extractASIN newURL) lines)
   \<and> distinct (asins (detect_duplicates newURL lines))
   \<and> asinSeen (detect_duplicates newURL lines) = first_line (extractASIN newURL) lines
   \<and> asinToLink (detect_duplicates newURL lines) = first_reference (extractASIN newURL) lines
   \<and> duplicates (detect_duplicates newURL lines) = later_occurrences (extractASIN newURL) lines"
  using detect_duplicates_invariant [of newURL lines] by (simp add: distinct_first_seen)

theorem detect_duplicates_registry_witness:
  "asins (detect_duplicates example_newURL example_lines) = [''B0AAAAAAA1'']
   \<and> asinSeen (detect_duplicates example_newURL example_lines) ''B0AAAAAAA1'' = Some 1
   \<and> asinToLink (detect_duplicates example_newURL example_lines) ''B0AAAAAAA1''
       = Some ''https://a.co/dp/B0AAAAAAA1''
   \<and> duplicates (detect_duplicates example_newURL example_lines)
       = [\<lparr>dup_asin = ''B0AAAAAAA1'', line1 = 1, line2 = 3\<rparr>]"
  using detect_duplicates_registry [of example_newURL example_lines]
  by (simp add: List.map_filter_def later_occurrences_def first_reference_def
      example_line1 example_line2 example_line3 example_lines_def upt_rec)

section \<open>Rounding\<close>

lemma toFixed2_nonneg: "0 \<le> x \<Longrightarrow> toFixed2 x = round2 x"
  by (simp add: toFixed2_def round2_def round_def)

lemma toFixed2_0: "toFixed2 0 = 0"
  by code_simp

section \<open>Price Normalizer, text mode\<close>

lemma remove1_single:
  "count_list t CHR '','' \<le> 1 \<Longrightarrow>
   remove1 CHR '','' (filter (\<lambda>c. is_digit c \<or> c = CHR ''.'' \<or> c = CHR '','') t)
   = filter (\<lambda>c. is_digit c \<or> c = CHR ''.'') t"
proof (induction t)
  case Nil
  show ?case by simp
next
  case (Cons c cs)
  show ?case
  proof (cases "c = CHR '',''")
    case True
    with Cons.prems have "count_list cs CHR '','' = 0" by simp
    then have "CHR '','' \<notin> set cs" by (simp add: count_list_0_iff)
    then have "filter (\<lambda>c. is_digit c \<or> c = CHR ''.'' \<or> c = CHR '','') cs
             = filter (\<lambda>c. is_digit c \<or> c = CHR ''.'') cs"
      by (intro filter_cong) auto
    with True show ?thesis by (simp add: is_digit_def)
  next
    case False
    with Cons show ?thesis by auto
  qed
qed

text \<open>
  Claim C5, as amended.  For every price text with at most one comma,
  \<^const>\<open>parsePriceText\<close> strips every character but digits, \<^verbatim>\<open>.\<close> and \<^verbatim>\<open>,\<close>,
  removes the comma, reads the longest leading decimal numeral of the rest, and returns
  its value as it is, not rounded; it returns absent when there is no numeral or the
  value is not finite, and for an absent or empty text.  What it returns is not negative.
\<close>

theorem parsePriceText_unrounded:
  assumes "count_list t CHR '','' \<le> 1"
  shows "parsePriceText (Some t) =
           (case parseFloat (filter (\<lambda>c. is_digit c \<or> c = CHR ''.'') t) of
              Finite v \<Rightarrow> Some v
            | NaN \<Rightarrow> None
            | Infinity \<Rightarrow> None)
         \<and> parsePriceText None = None
         \<and> (case parsePriceText (Some t) of None \<Rightarrow> True | Some v \<Rightarrow> 0 \<le> v)"
proof -
  have e: "parseFloat [] = NaN" by (simp add: parseFloat_def)
  have a: "parsePriceText (Some t) =
           (case parseFloat (filter (\<lambda>c. is_digit c \<or> c = CHR ''.'') t) of
              Finite v \<Rightarrow> Some v | NaN \<Rightarrow> None | Infinity \<Rightarrow> None)"
  proof (cases "t = []")
    case True
    then show ?thesis by (simp add: parsePriceText_def truthy_def e)
  next
    case False
    then show ?thesis
      by (simp add: parsePriceText_def truthy_def remove1_single [OF assms])
  qed
  have b: "parsePriceText None = None" by (simp add: parsePriceText_def truthy_def)
  have c: "case parsePriceText (Some t) of None \<Rightarrow> True | Some v \<Rightarrow> 0 \<le> v"
    unfolding a by (auto simp: parseFloat_def Let_def split: number.splits if_splits)
  from a b c show ?thesis by blast
qed

lemmas price_eval = parsePriceText_def truthy_def parseFloat_def is_digit_def digits_val_def digit_val_def

lemma price_12_345: "parsePriceText (Some ''$12.345'') = Some (2469 / 200)"
  by (simp add: price_eval)

lemma round2_12_345: "round2 (2469 / 200) = 247 / 20"
  by (simp add: round2_def round_def floor_eq_iff)

lemma claimed_12_345: "claimed_price (Some ''$12.345'') = Some (247 / 20)"
  using round2_12_345
  by (simp add: claimed_price_def keep_price_char_def parseFloat_def is_digit_def digits_val_def digit_val_def)

text \<open>Of several commas only the first is removed, and the numeral ends at the second.\<close>

lemma price_commas: "parsePriceText (Some ''$1,234,567.89'') = Some 1234"
  by (simp add: price_eval)

lemma price_1299_50: "parsePriceText (Some ''$1,299.50'') = Some (2599 / 2)"
  by (simp add: price_eval)

theorem parsePriceText_unrounded_witness:
  "count_list ''$1,299.50'' CHR '','' \<le> 1
   \<and> parsePriceText (Some ''$1,299.50'') = Some (2599 / 2)
   \<and> parseFloat ''1299.50'' = Finite (2599 / 2)"
proof -
  have h: "count_list ''$1,299.50'' CHR '','' \<le> 1" by simp
  from parsePriceText_unrounded [OF h] price_1299_50 h show ?thesis
    by (simp add: is_digit_def split: number.splits)
qed

text \<open>
  The claim as it was stated fails: a price text with three decimals is returned with
  all three.
\<close>

theorem parsePriceText_counterexample:
  "parsePriceText (Some ''$12.345'') = Some (2469 / 200)
   \<and> claimed_price (Some ''$12.345'') = Some (247 / 20)
   \<and> parsePriceText (Some ''$12.345'') \<noteq> claimed_price (Some ''$12.345'')"
  by (simp add: price_12_345 claimed_12_345)

section \<open>Double-precision arithmetic: rounding facts\<close>

text \<open>
  Rounding to a double keeps the sign, and every double is a multiple of \<open>2^-1074\<close>, so
  that the difference of two distinct doubles never rounds to 0.
\<close>

lemma quantum_pos: "0 < quantum x"
  by (simp add: quantum_def)

lemma round_even_nonneg: "0 \<le> y \<Longrightarrow> 0 \<le> round_even y"
  by (auto simp: round_even_def Let_def)

lemma to_double_nonneg: "0 \<le> x \<Longrightarrow> 0 \<le> to_double x"
  unfolding to_double_def
  by (intro mult_nonneg_nonneg) (simp_all add: round_even_nonneg quantum_pos less_imp_le)

lemma to_double_0: "to_double 0 = 0"
  by (simp add: to_double_def round_even_def)

lemma round_even_ge_floor: "\<lfloor>y\<rfloor> \<le> round_even y"
  by (simp add: round_even_def Let_def)

lemma quantum_le:
  assumes "1 / 2 ^ 1074 \<le> \<bar>x\<bar>"
  shows "quantum x \<le> \<bar>x\<bar>"
proof -
  define S :: rat where "S = 2 ^ 1074"
  define n where "n = nat \<lfloor>\<bar>x\<bar> * S\<rfloor>"
  define K where "K = floorlog 2 n - 53"
  have S: "0 < S" by (simp add: S_def)
  have q: "quantum x = 2 ^ K / S" by (simp only: quantum_def K_def n_def S_def)
  from assms S have one: "1 \<le> \<bar>x\<bar> * S" by (simp add: S_def field_simps)
  then have "of_int 1 \<le> \<bar>x\<bar> * S" by simp
  then have f1: "1 \<le> \<lfloor>\<bar>x\<bar> * S\<rfloor>" by (simp only: le_floor_iff)
  then have n1: "1 \<le> n" unfolding n_def by linarith
  have "2 ^ K \<le> n"
  proof (cases "floorlog 2 n \<le> 53")
    case True
    then have "K = 0" by (simp add: K_def)
    with n1 show ?thesis by simp
  next
    case False
    from n1 have "2 ^ (floorlog 2 n - 1) \<le> n" using floorlog_bounds [of n 2] by simp
    moreover have "(2::nat) ^ K \<le> 2 ^ (floorlog 2 n - 1)"
      by (rule power_increasing) (simp_all add: K_def)
    ultimately show ?thesis by (rule order_trans [rotated])
  qed
  then have "(of_nat (2 ^ K) :: rat) \<le> of_nat n" by (simp only: of_nat_le_iff)
  moreover have "(of_nat (2 ^ K) :: rat) = 2 ^ K" by simp
  moreover from f1 have "(of_nat n :: rat) = of_int \<lfloor>\<bar>x\<bar> * S\<rfloor>" by (simp add: n_def)
  moreover have "of_int \<lfloor>\<bar>x\<bar> * S\<rfloor> \<le> \<bar>x\<bar> * S" by (rule of_int_floor_le)
  ultimately have "(2::rat) ^ K \<le> \<bar>x\<bar> * S" by linarith
  with S have "2 ^ K / S \<le> \<bar>x\<bar>" by (simp add: field_simps)
  with q show ?thesis by simp
qed

lemma to_double_pos:
  assumes "1 / 2 ^ 1074 \<le> x"
  shows "0 < to_double x"
proof -
  have "(0::rat) < 1 / 2 ^ 1074" by simp
  then have x: "0 < x" using assms by (rule less_le_trans)
  with assms have "quantum x \<le> x" using quantum_le [of x] by simp
  with quantum_pos [of x] have "1 \<le> x / quantum x" by (simp add: field_simps)
  then have "of_int 1 \<le> x / quantum x" by simp
  then have "1 \<le> \<lfloor>x / quantum x\<rfloor>" by (simp only: le_floor_iff)
  with round_even_ge_floor [of "x / quantum x"] have "0 < round_even (x / quantum x)" by linarith
  with quantum_pos [of x] show ?thesis by (simp add: to_double_def)
qed

lemma to_double_grid: "\<exists>j. to_double x = of_int j / 2 ^ 1074"
proof -
  define S :: rat where "S = 2 ^ 1074"
  define K where "K = floorlog 2 (nat \<lfloor>\<bar>x\<bar> * S\<rfloor>) - 53"
  have q: "quantum x = 2 ^ K / S" by (simp only: quantum_def K_def S_def)
  have "to_double x = of_int (round_even (x / quantum x) * 2 ^ K) / S"
    by (simp add: to_double_def q)
  then show ?thesis unfolding S_def by (rule exI)
qed

lemma dsub_pos:
  assumes "to_double b < to_double a"
  shows "0 < dsub (to_double a) (to_double b)"
proof -
  define S :: rat where "S = 2 ^ 1074"
  have S: "0 < S" by (simp add: S_def)
  obtain i where i: "to_double a = of_int i / S" using to_double_grid [of a] by (auto simp: S_def)
  obtain j where j: "to_double b = of_int j / S" using to_double_grid [of b] by (auto simp: S_def)
  from assms i j S have "(of_int j :: rat) < of_int i" by (simp add: divide_less_cancel)
  then have "j + 1 \<le> i" by simp
  then have "(of_int (j + 1) :: rat) \<le> of_int i" by (simp only: of_int_le_iff)
  then have "(of_int j :: rat) + 1 \<le> of_int i" by simp
  with S have "1 / S \<le> of_int i / S - of_int j / S" by (simp add: field_simps)
  with i j have "1 / 2 ^ 1074 \<le> to_double a - to_double b" by (simp add: S_def)
  then show ?thesis unfolding dsub_def by (rule to_double_pos)
qed

text \<open>
  How a rounding is evaluated: for a magnitude between \<open>2^52\<close> and \<open>2^53\<close> times
  \<open>2^(k-1074)\<close> that is the quantum, and the significand is the integer within a half of
  the quotient.
\<close>

lemma floorlog_scaled:
  fixes S :: rat
  assumes "2 ^ (k + 52) \<le> \<bar>x\<bar> * S" and "\<bar>x\<bar> * S < 2 ^ (k + 53)"
  shows "floorlog 2 (nat \<lfloor>\<bar>x\<bar> * S\<rfloor>) = k + 53"
proof -
  let ?n = "nat \<lfloor>\<bar>x\<bar> * S\<rfloor>"
  from assms(1) have "of_int (2 ^ (k + 52)) \<le> \<bar>x\<bar> * S" by simp
  then have l: "(2::int) ^ (k + 52) \<le> \<lfloor>\<bar>x\<bar> * S\<rfloor>" by (simp only: le_floor_iff)
  then have nn: "0 \<le> \<lfloor>\<bar>x\<bar> * S\<rfloor>"
    by (rule order_trans [rotated]) simp
  from l have "nat ((2::int) ^ (k + 52)) \<le> ?n" by (rule nat_mono)
  then have lo: "(2::nat) ^ (k + 52) \<le> ?n" by (simp add: nat_power_eq)
  from assms(2) have "\<bar>x\<bar> * S < of_int (2 ^ (k + 53))" by simp
  then have "\<lfloor>\<bar>x\<bar> * S\<rfloor> < (2::int) ^ (k + 53)" by (simp only: floor_less_iff)
  then have "?n < nat ((2::int) ^ (k + 53))" by (simp only: zless_nat_conj) simp
  then have hi: "?n < (2::nat) ^ (k + 53)" by (simp add: nat_power_eq)
  have "floorlog 2 ?n \<le> k + 53" using hi by (intro floorlog_leI) simp_all
  moreover have "k + 53 \<le> floorlog 2 ?n"
  proof (rule floorlog_geI)
    have "k + 53 - 1 = k + 52" by simp
    with lo show "2 ^ (k + 53 - 1) \<le> ?n" by (simp only:)
  qed simp
  ultimately show ?thesis by simp
qed

lemma quantum_eqI:
  assumes "2 ^ 52 * (2 ^ k / 2 ^ 1074) \<le> \<bar>x\<bar>" and "\<bar>x\<bar> < 2 ^ 53 * (2 ^ k / 2 ^ 1074)"
  shows "quantum x = 2 ^ k / 2 ^ 1074"
proof -
  define S :: rat where "S = 2 ^ 1074"
  have S: "0 < S" by (simp add: S_def)
  from assms have a: "2 ^ 52 * (2 ^ k / S) \<le> \<bar>x\<bar>" and b: "\<bar>x\<bar> < 2 ^ 53 * (2 ^ k / S)"
    by (simp_all only: S_def)
  from a S have "(2::rat) ^ (k + 52) \<le> \<bar>x\<bar> * S"
    by (simp add: field_simps power_add)
  moreover from b S have "\<bar>x\<bar> * S < (2::rat) ^ (k + 53)"
    by (simp add: field_simps power_add)
  ultimately have "floorlog 2 (nat \<lfloor>\<bar>x\<bar> * S\<rfloor>) = k + 53"
    by (rule floorlog_scaled)
  then have "2 ^ (floorlog 2 (nat \<lfloor>\<bar>x\<bar> * S\<rfloor>) - 53) / S = 2 ^ k / S" by simp
  then show ?thesis by (simp only: quantum_def S_def)
qed

lemma to_double_eqI:
  assumes "2 ^ 52 * (2 ^ k / 2 ^ 1074) \<le> \<bar>x\<bar>" and "\<bar>x\<bar> < 2 ^ 53 * (2 ^ k / 2 ^ 1074)"
  shows "to_double x = of_int (round_even (x / (2 ^ k / 2 ^ 1074))) * (2 ^ k / 2 ^ 1074)"
  by (simp only: to_double_def quantum_eqI [OF assms])

lemma round_even_nearest:
  assumes "\<bar>y - of_int n\<bar> < 1 / 2"
  shows "round_even y = n"
proof (cases "of_int n \<le> y")
  case True
  with assms have "\<lfloor>y\<rfloor> = n" by (simp add: floor_eq_iff)
  with assms True show ?thesis by (simp add: round_even_def)
next
  case False
  with assms have f: "\<lfloor>y\<rfloor> = n - 1" by (simp add: floor_eq_iff)
  from assms False have "1 / 2 < y - of_int (n - 1)" by simp
  with f show ?thesis by (simp add: round_even_def)
qed

lemma to_double_eval:
  assumes "2 ^ 52 * (2 ^ k / 2 ^ 1074) \<le> \<bar>x\<bar>" and "\<bar>x\<bar> < 2 ^ 53 * (2 ^ k / 2 ^ 1074)"
    and "\<bar>x / (2 ^ k / 2 ^ 1074) - of_int m\<bar> < 1 / 2"
  shows "to_double x = of_int m * (2 ^ k / 2 ^ 1074)"
  by (simp only: to_double_eqI [OF assms(1,2)] round_even_nearest [OF assms(3)])

text \<open>
  The error of a rounding: half a quantum at most, and the quantum is the smallest one or
  at most \<open>2^-52\<close> of the magnitude.  The difference of two doubles is a multiple of
  \<open>2^-1074\<close>, so that its rounding is off by \<open>2^-53\<close> of it at most.  The percentage
  computed in doubles is within \<open>2^-43\<close> of the exact one, and what two numbers less than
  \<open>1/100\<close> apart round to is \<open>1/100\<close> apart at most.
\<close>

lemma round_even_near: "\<bar>of_int (round_even y) - y\<bar> \<le> 1 / 2"
proof -
  have "of_int \<lfloor>y\<rfloor> \<le> y" "y < of_int \<lfloor>y\<rfloor> + 1" by linarith+
  then show ?thesis by (auto simp: round_even_def Let_def)
qed

lemma to_double_near: "\<bar>to_double x - x\<bar> \<le> quantum x / 2"
proof -
  have q: "0 < quantum x" by (rule quantum_pos)
  then have "to_double x - x = (of_int (round_even (x / quantum x)) - x / quantum x) * quantum x"
    by (simp add: to_double_def field_simps)
  then have "\<bar>to_double x - x\<bar> = \<bar>of_int (round_even (x / quantum x)) - x / quantum x\<bar> * quantum x"
    using q by (simp add: abs_mult)
  also have "\<dots> \<le> 1 / 2 * quantum x"
    using q round_even_near [of "x / quantum x"] by (intro mult_right_mono) simp_all
  finally show ?thesis by simp
qed

lemma quantum_cases:
  "quantum x = 1 / 2 ^ 1074 \<or> quantum x \<le> \<bar>x\<bar> / 2 ^ 52"
proof -
  define S :: rat where "S = 2 ^ 1074"
  define n where "n = nat \<lfloor>\<bar>x\<bar> * S\<rfloor>"
  define K where "K = floorlog 2 n - 53"
  have S: "0 < S" by (simp add: S_def)
  have q: "quantum x = 2 ^ K / S" by (simp only: quantum_def K_def n_def S_def)
  show ?thesis
  proof (cases "floorlog 2 n \<le> 53")
    case True
    then have "K = 0" by (simp add: K_def)
    with q have "quantum x = 1 / S" by simp
    then show ?thesis by (simp add: S_def)
  next
    case False
    then have B: "K + 53 = floorlog 2 n" by (simp add: K_def)
    from False have n0: "0 < n" by (cases "n = 0") (simp_all add: floorlog_def)
    then have "2 ^ (floorlog 2 n - 1) \<le> n" using floorlog_bounds [of n 2] by simp
    moreover from B have "floorlog 2 n - 1 = K + 52" by simp
    ultimately have "2 ^ (K + 52) \<le> n" by simp
    then have "(of_nat (2 ^ (K + 52)) :: rat) \<le> of_nat n" by (simp only: of_nat_le_iff)
    moreover have "(of_nat (2 ^ (K + 52)) :: rat) = 2 ^ K * 2 ^ 52" by (simp add: power_add)
    moreover from n0 have "(of_nat n :: rat) = of_int \<lfloor>\<bar>x\<bar> * S\<rfloor>" by (simp add: n_def)
    moreover have "of_int \<lfloor>\<bar>x\<bar> * S\<rfloor> \<le> \<bar>x\<bar> * S" by (rule of_int_floor_le)
    ultimately have "(2::rat) ^ K * 2 ^ 52 \<le> \<bar>x\<bar> * S" by linarith
    with S have "2 ^ K / S \<le> \<bar>x\<bar> / 2 ^ 52" by (simp add: field_simps)
    with q show ?thesis by simp
  qed
qed


lemma to_double_exact:
  assumes "x = of_int j / 2 ^ 1074" and "quantum x = 1 / 2 ^ 1074"
  shows "to_double x = x"
proof -
  define S :: rat where "S = 2 ^ 1074"
  have S: "0 < S" by (simp add: S_def)
  from assms have x: "x = of_int j / S" and q: "quantum x = 1 / S" by (simp_all only: S_def)
  from S have "of_int j / S / (1 / S) = (of_int j :: rat)" by simp
  with x q have "x / quantum x = of_int j" by (simp only:)
  moreover have "round_even (of_int j) = j" by (rule round_even_nearest) simp
  ultimately have "round_even (x / quantum x) = j" by (simp only:)
  then have "to_double x = of_int j * quantum x" by (simp only: to_double_def)
  with x q show ?thesis by (simp only:) simp
qed

lemma to_double_rel:
  assumes "x = of_int j / 2 ^ 1074"
  shows "\<bar>to_double x - x\<bar> \<le> \<bar>x\<bar> / 2 ^ 53"
proof -
  from quantum_cases [of x] show ?thesis
  proof
    assume "quantum x = 1 / 2 ^ 1074"
    with assms have "to_double x = x" by (rule to_double_exact)
    then show ?thesis by simp
  next
    assume "quantum x \<le> \<bar>x\<bar> / 2 ^ 52"
    with to_double_near [of x] show ?thesis by simp
  qed
qed

lemma to_double_abs: "\<bar>to_double x - x\<bar> \<le> (\<bar>x\<bar> + 1) / 2 ^ 53"
proof -
  from quantum_cases [of x] show ?thesis
  proof
    assume "quantum x = 1 / 2 ^ 1074"
    with to_double_near [of x] have "\<bar>to_double x - x\<bar> \<le> 1 / 2 ^ 1075" by simp
    also have "\<dots> \<le> (1::rat) / 2 ^ 53"
      by (intro divide_left_mono power_increasing) simp_all
    also have "\<dots> \<le> (\<bar>x\<bar> + 1) / 2 ^ 53" by (simp add: divide_right_mono)
    finally show ?thesis .
  next
    assume "quantum x \<le> \<bar>x\<bar> / 2 ^ 52"
    with to_double_near [of x] have "\<bar>to_double x - x\<bar> \<le> \<bar>x\<bar> / 2 ^ 53" by simp
    also have "\<dots> \<le> (\<bar>x\<bar> + 1) / 2 ^ 53" by (simp add: divide_right_mono)
    finally show ?thesis .
  qed
qed

lemma dsub_rel: "\<bar>dsub (to_double a) (to_double b) - (to_double a - to_double b)\<bar>
                   \<le> \<bar>to_double a - to_double b\<bar> / 2 ^ 53"
proof -
  obtain i where i: "to_double a = of_int i / 2 ^ 1074" using to_double_grid [of a] by auto
  obtain j where j: "to_double b = of_int j / 2 ^ 1074" using to_double_grid [of b] by auto
  from i j have "to_double a - to_double b = of_int (i - j) / 2 ^ 1074"
    by (simp add: diff_divide_distrib)
  then show ?thesis unfolding dsub_def by (rule to_double_rel)
qed

lemma percentage_error:
  fixes ov cv :: rat
  assumes c: "0 \<le> cv" and lt: "cv < ov"
    and d: "\<bar>d - (ov - cv)\<bar> \<le> (ov - cv) * u"
    and q: "\<bar>q - d / ov\<bar> \<le> (\<bar>d / ov\<bar> + 1) * u"
    and p: "\<bar>p - q * 100\<bar> \<le> (\<bar>q * 100\<bar> + 1) * u"
    and u: "0 \<le> u" "u \<le> 1 / 1000"
  shows "\<bar>p - (ov - cv) / ov * 100\<bar> \<le> 901 * u"
proof -
  from c lt have o: "0 < ov" by simp
  define r where "r = (ov - cv) / ov"
  from c lt o have r: "0 \<le> r" "r \<le> 1" by (simp_all add: r_def)
  have "d / ov - r = (d - (ov - cv)) / ov" by (simp add: r_def diff_divide_distrib)
  then have "\<bar>d / ov - r\<bar> = \<bar>d - (ov - cv)\<bar> / ov" using o by simp
  also from d o have "\<dots> \<le> (ov - cv) * u / ov" by (simp add: divide_right_mono)
  also have "\<dots> = r * u" by (simp add: r_def)
  also from r u have "\<dots> \<le> 1 * u" by (intro mult_right_mono) simp_all
  finally have t: "\<bar>d / ov - r\<bar> \<le> u" by simp
  with r u have t2: "\<bar>d / ov\<bar> \<le> 2" by linarith
  then have "(\<bar>d / ov\<bar> + 1) * u \<le> 3 * u" using u by (intro mult_right_mono) simp_all
  with q have q1: "\<bar>q - d / ov\<bar> \<le> 3 * u" by simp
  with t2 u have "\<bar>q\<bar> \<le> 5" by linarith
  then have "\<bar>q * 100\<bar> + 1 \<le> 501" by (simp add: abs_mult)
  then have "(\<bar>q * 100\<bar> + 1) * u \<le> 501 * u" using u by (intro mult_right_mono) simp_all
  with p have "\<bar>p - q * 100\<bar> \<le> 501 * u" by simp
  with q1 t have "\<bar>p - r * 100\<bar> \<le> 901 * u" by linarith
  then show ?thesis by (simp only: r_def)
qed

lemma double_percentage_error:
  assumes "0 \<le> to_double cv" and "to_double cv < to_double ov"
  shows "\<bar>dmul (ddiv (dsub (to_double ov) (to_double cv)) (to_double ov)) 100
           - (to_double ov - to_double cv) / to_double ov * 100\<bar> \<le> 1 / 2 ^ 43"
proof -
  define u :: rat where "u = 1 / 2 ^ 53"
  have u: "0 \<le> u" "u \<le> 1 / 1000" by (simp_all add: u_def)
  let ?d = "dsub (to_double ov) (to_double cv)"
  let ?q = "ddiv ?d (to_double ov)"
  let ?p = "dmul ?q 100"
  from assms(2) dsub_rel [of ov cv]
  have d: "\<bar>?d - (to_double ov - to_double cv)\<bar> \<le> (to_double ov - to_double cv) * u"
    by (simp add: u_def)
  have q: "\<bar>?q - ?d / to_double ov\<bar> \<le> (\<bar>?d / to_double ov\<bar> + 1) * u"
    using to_double_abs [of "?d / to_double ov"] by (simp add: ddiv_def u_def)
  have p: "\<bar>?p - ?q * 100\<bar> \<le> (\<bar>?q * 100\<bar> + 1) * u"
    using to_double_abs [of "?q * 100"] by (simp add: dmul_def u_def)
  from percentage_error [OF assms d q p u]
  have "\<bar>?p - (to_double ov - to_double cv) / to_double ov * 100\<bar> \<le> 901 * u" .
  also have "\<dots> \<le> 1 / 2 ^ 43" by (simp add: u_def)
  finally show ?thesis .
qed

lemma round2_near:
  assumes "\<bar>x - y\<bar> < 1 / 100"
  shows "\<bar>round2 x - round2 y\<bar> \<le> 1 / 100"
proof -
  from assms have "\<bar>x * 100 - y * 100\<bar> < 1" by linarith
  then have "\<bar>round (x * 100) - round (y * 100)\<bar> \<le> 1"
    unfolding round_def by linarith
  then have "\<bar>(of_int (round (x * 100) - round (y * 100)) :: rat)\<bar> \<le> 1"
    by (simp only: of_int_abs [symmetric] of_int_le_1_iff)
  then show ?thesis by (simp add: round2_def diff_divide_distrib [symmetric] del: of_int_diff)
qed

lemma double_160: "to_double 160 = 160"
  by (simp add: to_double_eval [where k = 1029 and m = "160 * 2 ^ 45"])

lemma double_63: "to_double 63 = 63"
  by (simp add: to_double_eval [where k = 1027 and m = "63 * 2 ^ 47"])

lemma double_97: "to_double 97 = 97"
  by (simp add: to_double_eval [where k = 1028 and m = "97 * 2 ^ 46"])

lemma double_97_160: "to_double (97 / 160) = 2730307274093363 / 4503599627370496"
  by (simp add: to_double_eval [where k = 1021 and m = 5460614548186726])

lemma double_6062: "to_double (68257681852334075 / 1125899906842624) = 8532210231541759 / 140737488355328"
  by (simp add: to_double_eval [where k = 1027 and m = 8532210231541759])

lemma double_20: "to_double 20 = 20"
  by (simp add: to_double_eval [where k = 1026 and m = "20 * 2 ^ 48"])

lemma double_15: "to_double 15 = 15"
  by (simp add: to_double_eval [where k = 1025 and m = "15 * 2 ^ 49"])

lemma double_5: "to_double 5 = 5"
  by (simp add: to_double_eval [where k = 1024 and m = "5 * 2 ^ 50"])

lemma double_quarter: "to_double (1 / 4) = 1 / 4"
  by (simp add: to_double_eval [where k = 1020 and m = "2 ^ 52"])

lemma double_25: "to_double 25 = 25"
  by (simp add: to_double_eval [where k = 1026 and m = "25 * 2 ^ 48"])

lemma double_40: "to_double 40 = 40"
  by (simp add: to_double_eval [where k = 1027 and m = "40 * 2 ^ 47"])

lemma double_minus_20: "to_double (- 20) = - 20"
  by (simp add: to_double_eval [where k = 1026 and m = "- (20 * 2 ^ 48)"])

lemma double_minus_1: "to_double (- 1) = - 1"
  by (simp add: to_double_eval [where k = 1022 and m = "- (2 ^ 52)"])

lemma double_minus_100: "to_double (- 100) = - 100"
  by (simp add: to_double_eval [where k = 1028 and m = "- (100 * 2 ^ 46)"])

lemmas double_eval =
  dsub_def ddiv_def dmul_def double_160 double_63 double_97 double_97_160 double_6062
  double_20 double_15 double_5 double_quarter double_25 double_40 double_minus_20
  double_minus_1 double_minus_100

section \<open>Discount Calculator: the cases\<close>

lemma double_percentage_nonneg:
  assumes "0 \<le> cv" and "cv < ov"
  shows "0 \<le> dsub ov cv" and "0 \<le> dmul (ddiv (dsub ov cv) ov) 100"
proof -
  from assms show d: "0 \<le> dsub ov cv" by (simp add: dsub_def to_double_nonneg)
  from assms have "0 < ov" by simp
  with d have "0 \<le> dsub ov cv / ov" by simp
  then have "0 \<le> ddiv (dsub ov cv) ov" unfolding ddiv_def by (rule to_double_nonneg)
  then have "0 \<le> ddiv (dsub ov cv) ov * 100" by simp
  then show "0 \<le> dmul (ddiv (dsub ov cv) ov) 100" unfolding dmul_def by (rule to_double_nonneg)
qed

lemma computeDiscount_double:
  assumes "case cur of None \<Rightarrow> True | Some cv \<Rightarrow> 0 \<le> cv"
  shows "computeDiscount orig cur = double_discount orig cur"
proof (cases orig)
  case None
  then show ?thesis by (simp add: computeDiscount_def double_discount_def)
next
  case o: (Some ov)
  show ?thesis
  proof (cases cur)
    case None
    with o show ?thesis by (simp add: computeDiscount_def double_discount_def)
  next
    case c: (Some cv)
    show ?thesis
    proof (cases "to_double ov \<le> to_double cv")
      case True
      with o c show ?thesis by (simp add: computeDiscount_def double_discount_def)
    next
      case False
      from assms c have "0 \<le> to_double cv" by (simp add: to_double_nonneg)
      moreover from False have "to_double cv < to_double ov" by simp
      ultimately have "0 \<le> dsub (to_double ov) (to_double cv)"
        and "0 \<le> dmul (ddiv (dsub (to_double ov) (to_double cv)) (to_double ov)) 100"
        by (rule double_percentage_nonneg)+
      then have "toFixed2 (dmul (ddiv (dsub (to_double ov) (to_double cv)) (to_double ov)) 100)
                   = double_percentage (to_double ov) (to_double cv)"
        and "toFixed2 (dsub (to_double ov) (to_double cv)) = round2 (dsub (to_double ov) (to_double cv))"
        by (simp_all only: toFixed2_nonneg double_percentage_def)
      with o c False show ?thesis by (simp add: computeDiscount_def double_discount_def Let_def)
    qed
  qed
qed

lemma api_discount_row:
  assumes p: "discountPct s = pct (original s) (current s)"
    and a: "discountAmt s = (if truthy_num (map_option to_double (original s))
                                \<and> truthy_num (map_option to_double (current s))
                             then dsub (to_double (the (original s))) (to_double (the (current s)))
                             else 0)"
    and h: "has_discount s = (0 < discountAmt s)"
  shows "api_discount (original s) (current s) (dealRow s)"
proof (cases "original s")
  case None
  with p a h show ?thesis
    by (simp add: api_discount_def dealRow_def pct_def truthy_num_def fmtUsd_def toFixed2_0)
next
  case o: (Some ov)
  show ?thesis
  proof (cases "current s")
    case None
    with o p a h show ?thesis
      by (simp add: api_discount_def dealRow_def pct_def truthy_num_def fmtUsd_def toFixed2_0)
  next
    case c: (Some cv)
    show ?thesis
    proof (cases "0 < to_double cv \<and> to_double cv < to_double ov")
      case False
      show ?thesis
      proof (cases "to_double cv = to_double ov")
        case True
        with o c p a h show ?thesis
          by (simp add: api_discount_def dealRow_def pct_def truthy_num_def fmtUsd_def toFixed2_0
              Let_def dsub_def ddiv_def dmul_def to_double_0)
      next
        case ne: False
        with False o c show ?thesis by (auto simp add: api_discount_def)
      qed
    next
      case True
      then have "0 \<le> to_double cv" and lt: "to_double cv < to_double ov" by simp_all
      then have "0 \<le> dsub (to_double ov) (to_double cv)"
        and "0 \<le> dmul (ddiv (dsub (to_double ov) (to_double cv)) (to_double ov)) 100"
        by (rule double_percentage_nonneg)+
      then have "toFixed2 (dmul (ddiv (dsub (to_double ov) (to_double cv)) (to_double ov)) 100)
                   = double_percentage (to_double ov) (to_double cv)"
        and "toFixed2 (dsub (to_double ov) (to_double cv)) = round2 (dsub (to_double ov) (to_double cv))"
        by (simp_all only: toFixed2_nonneg double_percentage_def)
      moreover from lt have "0 < dsub (to_double ov) (to_double cv)" by (rule dsub_pos)
      moreover from True have "to_double ov \<noteq> 0" "to_double cv \<noteq> 0" by simp_all
      ultimately show ?thesis using True o c p a h
        by (simp add: api_discount_def dealRow_def pct_def truthy_num_def fmtUsd_def Let_def)
    qed
  qed
qed

lemma double_percentage_near:
  assumes "0 \<le> to_double cv" and "to_double cv < to_double ov"
  shows "\<bar>double_percentage (to_double ov) (to_double cv)
           - round2 ((to_double ov - to_double cv) / to_double ov * 100)\<bar> \<le> 1 / 100"
proof -
  have "(1::rat) / 2 ^ 43 < 1 / 100" by simp
  with double_percentage_error [OF assms]
  have "\<bar>dmul (ddiv (dsub (to_double ov) (to_double cv)) (to_double ov)) 100
           - (to_double ov - to_double cv) / to_double ov * 100\<bar> < 1 / 100"
    by (rule le_less_trans)
  then show ?thesis unfolding double_percentage_def by (rule round2_near)
qed

text \<open>
  Claim C2, as amended.  The prices are read as doubles, and the percentage is computed in
  double arithmetic: the difference, its quotient by the original price and the product
  with 100 are each rounded to the nearest double, and the result is rounded to two
  decimals; the saved amount is the rounded difference, rounded to two decimals.  In the
  browser-driven variant, for every pair of prices that are absent or not negative,
  \<^const>\<open>computeDiscount\<close> returns no discount with absent percentage and amount when a
  price is absent, no discount with percentage 0 and amount 0 when the current price is
  not below the original, and otherwise a discount with that percentage and that amount.
  In the rows of both API variants an absent price gives no discount with percentage 0
  and amount 0, equal prices give the same, and a positive current price below the
  original gives the discount with that percentage and that amount.  That percentage is
  within \<open>1/100\<close> of the exact percentage of the two doubles rounded to two decimals.
\<close>

theorem discount_cases:
  "((case cur of None \<Rightarrow> True | Some cv \<Rightarrow> 0 \<le> cv) \<longrightarrow> computeDiscount orig cur = double_discount orig cur)
   \<and> api_discount (SavingBasis_Amount item) (Price_Amount item) (dealRow (summarizePA item lnk))
   \<and> api_discount (original (summarizeKeepa cfg p lnk)) (current (summarizeKeepa cfg p lnk))
        (dealRow (summarizeKeepa cfg p lnk))
   \<and> (0 \<le> to_double cv' \<and> to_double cv' < to_double ov' \<longrightarrow>
        \<bar>double_percentage (to_double ov') (to_double cv')
           - round2 ((to_double ov' - to_double cv') / to_double ov' * 100)\<bar> \<le> 1 / 100)"
proof -
  have pa: "api_discount (original (summarizePA item lnk)) (current (summarizePA item lnk))
              (dealRow (summarizePA item lnk))"
    by (rule api_discount_row) (simp_all add: summarizePA_def Let_def)
  have "original (summarizePA item lnk) = SavingBasis_Amount item"
    and "current (summarizePA item lnk) = Price_Amount item"
    by (simp_all add: summarizePA_def Let_def)
  with pa have pa': "api_discount (SavingBasis_Amount item) (Price_Amount item) (dealRow (summarizePA item lnk))"
    by simp
  have ke: "api_discount (original (summarizeKeepa cfg p lnk)) (current (summarizeKeepa cfg p lnk))
              (dealRow (summarizeKeepa cfg p lnk))"
    by (rule api_discount_row) (simp_all add: summarizeKeepa_def Let_def)
  from computeDiscount_double pa' ke double_percentage_near show ?thesis by blast
qed

lemma round2_25: "round2 25 = 25"
  by (simp add: round2_def)

lemma round2_5: "round2 5 = 5"
  by (simp add: round2_def)

lemma round2_97: "round2 97 = 97"
  by (simp add: round2_def)

lemma round2_6062: "round2 (8532210231541759 / 140737488355328) = 3031 / 50"
  by (simp add: round2_def round_def floor_eq_iff)

lemma round2_6063: "round2 (485 / 8) = 6063 / 100"
  by (simp add: round2_def round_def floor_eq_iff)

theorem discount_cases_witness:
  "computeDiscount (Some 160) (Some 63)
     = \<lparr>hasDiscount = True, percentage = Some (3031 / 50), savedAmount = Some 97\<rparr>
   \<and> HasDiscount (dealRow (summarizePA example_item None))
   \<and> DiscountPct (dealRow (summarizePA example_item None)) = Some 25
   \<and> YouSave (dealRow (summarizePA example_item None)) = Some 5
   \<and> \<bar>double_percentage 160 63 - round2 ((160 - 63) / 160 * 100)\<bar> \<le> 1 / 100"
  using discount_cases [where cur = "Some 63" and orig = "Some 160" and item = example_item
      and lnk = None and cv' = 63 and ov' = 160]
  by (simp add: double_discount_def double_percentage_def api_discount_def example_item_def
      double_eval round2_25 round2_5 round2_97 round2_6062 round2_6063)

text \<open>
  The claim as it was stated fails in the API variants: without an original price the
  row has percentage 0 and amount 0, where the claim has absent values.  And it fails on
  exact numbers: from 160 down to 63 the discount is 60.625 percent, which rounds to
  60.63, where the quotient and the product in doubles give 60.62499999999999, so that
  the variants report 60.62.
\<close>

theorem discount_counterexample:
  "DiscountPct (dealRow (summarizePA example_item_no_basis None)) = Some 0
   \<and> YouSave (dealRow (summarizePA example_item_no_basis None)) = Some 0
   \<and> percentage (claimed_discount (SavingBasis_Amount example_item_no_basis)
                   (Price_Amount example_item_no_basis)) = None
   \<and> savedAmount (claimed_discount (SavingBasis_Amount example_item_no_basis)
                    (Price_Amount example_item_no_basis)) = None
   \<and> percentage (computeDiscount (Some 160) (Some 63)) = Some (3031 / 50)
   \<and> DiscountPct (dealRow (summarizePA (example_item\<lparr>SavingBasis_Amount := Some 160, Price_Amount := Some 63\<rparr>) None))
         = Some (3031 / 50)
   \<and> percentage (claimed_discount (Some 160) (Some 63)) = Some (6063 / 100)"
  by (simp add: example_item_no_basis_def example_item_def dealRow_def summarizePA_def Let_def
      pct_def truthy_num_def fmtUsd_def toFixed2_0 claimed_discount_def computeDiscount_def
      double_eval toFixed2_nonneg round2_97 round2_6062 round2_6063)

text \<open>With a current price above the original, a row of the API variants has negative values.\<close>

lemma negative_discount:
  "DiscountPct (dealRow (summarizePA (example_item\<lparr>Price_Amount := Some 40\<rparr>) None)) = Some (- 100)
   \<and> YouSave (dealRow (summarizePA (example_item\<lparr>Price_Amount := Some 40\<rparr>) None)) = Some (- 20)"
  by (simp add: example_item_def dealRow_def summarizePA_def Let_def
      pct_def truthy_num_def fmtUsd_def double_eval toFixed2_def floor_eq_iff)

section \<open>Keyed-API normalizer: the fallback of the list price\<close>

lemma keepaToUSD_minor: "keepaToUSD v = (case v of None \<Rightarrow> None | Some a \<Rightarrow> if 0 < a then Some (round2 (a / 100)) else None)"
  by (auto simp: keepaToUSD_def toFixed2_nonneg split: option.splits)

text \<open>
  Claim C10.  In \<^const>\<open>summarizeKeepa\<close>, when the list price \<^verbatim>\<open>stats.current[4]\<close>
  is absent, the original price is the 90-day average \<^verbatim>\<open>stats.avg90[0]\<close> converted
  from minor units (a hundredth of it, rounded to two decimals; absent when the average
  is absent or not positive), and \<^verbatim>\<open>needCheckManually\<close> is true all the same, in the
  summary and in the row.
\<close>

theorem keepa_list_price_fallback:
  assumes "stats_current_4 p = None"
  shows "original (summarizeKeepa cfg p lnk) =
           (case stats_avg90_0 p of None \<Rightarrow> None | Some a \<Rightarrow> if 0 < a then Some (round2 (a / 100)) else None)
         \<and> needCheckManually (summarizeKeepa cfg p lnk)
         \<and> NeedCheckManually (dealRow (summarizeKeepa cfg p lnk))"
  using assms
  by (simp add: summarizeKeepa_def Let_def nullish_def finite_positive_def dealRow_def keepaToUSD_minor
      split: option.splits)

lemma round2_2599: "round2 (2599 / 100) = 2599 / 100"
  by (simp add: round2_def)

theorem keepa_list_price_fallback_witness:
  "stats_current_4 example_product = None
   \<and> original (summarizeKeepa example_config example_product None) = Some (2599 / 100)
   \<and> needCheckManually (summarizeKeepa example_config example_product None)
   \<and> NeedCheckManually (dealRow (summarizeKeepa example_config example_product None))"
proof -
  have h: "stats_current_4 example_product = None" by (simp add: example_product_def)
  from keepa_list_price_fallback [OF h, of example_config None] h show ?thesis
    by (simp add: example_product_def round2_2599)
qed

section \<open>The flag for a manual check\<close>

lemma truthy_or_else_None: "truthy (or_else a None) \<longleftrightarrow> or_else a None \<noteq> None"
  by (auto simp: or_else_def truthy_def split: option.splits)

lemma truthy_screenshot:
  "truthy (screenshotMainImage obs dir a i) \<longleftrightarrow> screenshotMainImage obs dir a i \<noteq> None"
  by (simp add: screenshotMainImage_def truthy_def path_join_def)

lemma scrape_needCheck:
  assumes "scrapeAmazonProduct tag obs raw dir i = Inr d"
  shows "NeedCheckManually d =
           (Title d = None \<or> Image d = None \<or> Original d = None \<or> Current d = None \<or> ASIN d = None)"
proof -
  from assms have nr: "\<not> page_rejects obs"
    by (auto simp: scrapeAmazonProduct_def Let_def split: if_splits)
  let ?t = "or_else (or_else (map_option trim (productTitle obs)) None) None"
  let ?p = "screenshotMainImage obs dir (extractASINFromUrl raw) i"
  from assms nr have
    "Title d = ?t" "Image d = ?p" "ASIN d = extractASINFromUrl raw"
    "NeedCheckManually d =
       (\<not> truthy ?t \<or> \<not> truthy ?p \<or> Original d = None \<or> Current d = None
        \<or> extractASINFromUrl raw = None)"
    by (auto simp: scrapeAmazonProduct_def Let_def)
  then show ?thesis
    by (simp add: truthy_or_else_None truthy_screenshot)
qed

text \<open>
  Claim C3, as amended.  In the browser-driven variant the flag of a scraped record is
  true exactly when one of title, image, original price, current price and identifier is
  absent, and a pass-through record has the flag and no title.  In the rows of the API
  variants the flag is true exactly when the current price or the original (list) price
  of the provider is absent or not positive; title, image and identifier play no part.
\<close>

theorem needCheckManually_rule:
  "(case scrapeAmazonProduct tag obs raw dir i of
      Inl e \<Rightarrow> True
    | Inr d \<Rightarrow>
        NeedCheckManually d =
          (Title d = None \<or> Image d = None \<or> Original d = None \<or> Current d = None \<or> ASIN d = None))
   \<and> NeedCheckManually (pass_through a raw) \<and> Title (pass_through a raw) = None
   \<and> NeedCheckManually (dealRow (summarizePA item lnk))
       = (\<not> finite_positive (Price_Amount item) \<or> \<not> finite_positive (SavingBasis_Amount item))
   \<and> NeedCheckManually (dealRow (summarizeKeepa cfg p lnk))
       = (\<not> finite_positive (stats_current_0 p) \<or> \<not> finite_positive (stats_current_4 p))"
proof -
  have b: "case scrapeAmazonProduct tag obs raw dir i of
      Inl e \<Rightarrow> True
    | Inr d \<Rightarrow>
        NeedCheckManually d =
          (Title d = None \<or> Image d = None \<or> Original d = None \<or> Current d = None \<or> ASIN d = None)"
    by (cases "scrapeAmazonProduct tag obs raw dir i") (simp_all add: scrape_needCheck)
  have pt: "NeedCheckManually (pass_through a raw) \<and> Title (pass_through a raw) = None"
    by (simp add: pass_through_def)
  have pa: "NeedCheckManually (dealRow (summarizePA item lnk))
       = (\<not> finite_positive (Price_Amount item) \<or> \<not> finite_positive (SavingBasis_Amount item))"
    by (simp add: dealRow_def summarizePA_def Let_def)
  have ke: "NeedCheckManually (dealRow (summarizeKeepa cfg p lnk))
       = (\<not> finite_positive (stats_current_0 p) \<or> \<not> finite_positive (stats_current_4 p))"
    by (simp add: dealRow_def summarizeKeepa_def Let_def)
  from b pt pa ke show ?thesis by blast
qed

lemma example_asin: "extractASINFromUrl ''https://www.amazon.com/dp/B0AAAAAAA1'' = Some ''B0AAAAAAA1''"
  by code_simp

lemma example_title: "trim '' Lamp '' = ''Lamp''"
  by (simp add: trim_def is_space_def)

lemma example_current: "parsePriceText (Some ''$15.00'') = Some 15"
  by (simp add: price_eval)

lemma example_original: "parsePriceText (Some ''$20.00'') = Some 20"
  by (simp add: price_eval)

lemma example_discount:
  "computeDiscount (Some 20) (Some 15) = \<lparr>hasDiscount = True, percentage = Some 25, savedAmount = Some 5\<rparr>"
  by (simp add: computeDiscount_def double_eval toFixed2_def floor_eq_iff)

lemma example_scrape: "scrapeAmazonProduct [] example_obs example_url ''shots'' 0 = Inr example_deal"
  by (simp add: scrapeAmazonProduct_def Let_def example_obs_def example_url_def example_deal_def
      example_asin example_title example_current example_original example_discount
      or_else_def truthy_def screenshotMainImage_def path_join_def)

theorem needCheckManually_rule_witness:
  "scrapeAmazonProduct [] example_obs example_url ''shots'' 0 = Inr example_deal
   \<and> NeedCheckManually example_deal
       = (Title example_deal = None \<or> Image example_deal = None \<or> Original example_deal = None
          \<or> Current example_deal = None \<or> ASIN example_deal = None)
   \<and> NeedCheckManually (dealRow (summarizePA example_item_no_basis None)) = True"
  using needCheckManually_rule [where tag = "[]" and obs = example_obs and raw = example_url
      and dir = "''shots''" and i = 0 and item = example_item_no_basis and lnk = None]
  by (simp add: example_scrape example_item_no_basis_def example_item_def finite_positive_def)

text \<open>
  The claim as it was stated fails in the signed-API variant: a row with both prices and
  no image has no flag.
\<close>

theorem needCheckManually_counterexample:
  "NeedCheckManually (dealRow (summarizePA example_item None)) = False
   \<and> Image (dealRow (summarizePA example_item None)) = None"
  by (simp add: example_item_def dealRow_def summarizePA_def Let_def finite_positive_def
      or_else_def truthy_def)

text \<open>In the keyed-API variant a row can have the flag with no field absent.\<close>

lemma keepa_fallback_flag:
  "NeedCheckManually (dealRow (summarizeKeepa example_config example_product None)) = True
   \<and> Original (dealRow (summarizeKeepa example_config example_product None)) \<noteq> None
   \<and> Current (dealRow (summarizeKeepa example_config example_product None)) \<noteq> None"
  by (simp add: example_product_def dealRow_def summarizeKeepa_def Let_def finite_positive_def
      nullish_def keepaToUSD_def fmtUsd_def)

section \<open>Browser-driven variant: records per input line\<close>

lemma example_trim: "trim example_url = example_url"
  by (simp add: trim_def is_space_def example_url_def)

text \<open>
  Claim C9 at an input where it fails: one input line, an Amazon address whose page is
  scraped, after which the delay rejects.  The record of the scrape is in the list
  already when the handler adds a pass-through record for the same line.
\<close>

theorem scrape_main_two_records:
  "length (non_blank [example_visit]) = 1
   \<and> foldl (main_step example_parser [] ''shots'') [] (enumerate 0 (non_blank [example_visit]))
       = [example_deal, pass_through (Some ''B0AAAAAAA1'') example_url]
   \<and> map_option length (scrape_main example_parser [] ''shots'' [example_visit]) = Some 2"
proof -
  have nb: "non_blank [example_visit] = [example_visit]"
    by (simp add: non_blank_def example_visit_def example_trim) (simp add: example_url_def)
  have p: "example_parser example_url
      = Some \<lparr>hostname = ''www.amazon.com'', pathname = ''/dp/B0AAAAAAA1'', searchParams = []\<rparr>"
    by (simp add: example_parser_def example_url_def)
  have a: "extractASINFromUrl example_url = Some ''B0AAAAAAA1''"
    by (simp add: example_url_def example_asin)
  have st: "main_step example_parser [] ''shots'' [] (0, example_visit)
      = [example_deal, pass_through (Some ''B0AAAAAAA1'') example_url]"
    by (simp add: main_step_def example_visit_def example_trim p example_scrape a)
  have f: "foldl (main_step example_parser [] ''shots'') [] (enumerate 0 (non_blank [example_visit]))
       = [example_deal, pass_through (Some ''B0AAAAAAA1'') example_url]"
    by (simp add: nb st)
  have "map_option length (scrape_main example_parser [] ''shots'' [example_visit]) = Some 2"
    unfolding scrape_main_def Let_def by (simp add: f) (simp add: nb)
  with nb f show ?thesis by simp
qed

text \<open>When no delay rejects, every non-blank line gives exactly one record.\<close>

lemma main_step_length:
  "\<not> delay_rejects (snd p) \<Longrightarrow> length (main_step newURL tag dir deals p) = Suc (length deals)"
  by (cases p) (auto simp: main_step_def Let_def split: option.splits sum.splits)

lemma main_loop_length:
  "list_all (\<lambda>p. \<not> delay_rejects (snd p)) ps \<Longrightarrow>
   length (foldl (main_step newURL tag dir) deals ps) = length deals + length ps"
  by (induction ps arbitrary: deals) (simp_all add: main_step_length)

lemma scrape_main_length:
  assumes "list_all (\<lambda>v. \<not> delay_rejects v) vs" and "non_blank vs \<noteq> []"
  shows "map_option length (scrape_main newURL tag dir vs) = Some (length (non_blank vs))"
proof -
  from assms(1) have "list_all (\<lambda>v. \<not> delay_rejects v) (non_blank vs)"
    by (simp add: non_blank_def list_all_iff)
  then have "list_all (\<lambda>p. \<not> delay_rejects (snd p)) (enumerate 0 (non_blank vs))"
    by (auto simp: list_all_iff in_set_enumerate_eq)
  from main_loop_length [OF this, of newURL tag dir "[]"] assms(2) show ?thesis
    by (simp add: scrape_main_def Let_def)
qed

section \<open>Rate Limiter: the spacing of the recorded starts\<close>

lemma throttle_exact:
  assumes "I \<le> 2147483647" and "lastFetchAt s \<le> clock s"
  shows "lastFetchAt (throttle I d s) = max (clock s) (lastFetchAt s + I) + d"
proof (cases "clock s - lastFetchAt s < I")
  case True
  with assms have "setTimeout_delay (I - (clock s - lastFetchAt s)) = I - (clock s - lastFetchAt s)"
    by (simp add: setTimeout_delay_def)
  with True show ?thesis by (simp add: throttle_def sleep_def advance_def Let_def)
next
  case False
  then show ?thesis by (simp add: throttle_def advance_def Let_def)
qed

lemma throttle_records:
  "lastFetchAt (throttle I d s) = clock (throttle I d s)
   \<and> starts (throttle I d s) = starts s @ [clock (throttle I d s)]
   \<and> waits (throttle I d s) =
       waits s @ (if clock s - lastFetchAt s < I then [I - (clock s - lastFetchAt s)] else [])"
  by (simp add: throttle_def sleep_def advance_def Let_def)

lemma paced_throttle:
  assumes "I \<le> 2147483647" and "paced tol I s" and "- tol \<le> d"
  shows "paced tol I (throttle I d s)"
proof (cases "starts s = []")
  case True
  then show ?thesis
    using throttle_records [of I d s] by (simp add: paced_def spaced_within_def)
next
  case False
  with assms(2) have l: "last (starts s) = lastFetchAt s" and c: "lastFetchAt s \<le> clock s"
    and sp: "spaced_within tol I (starts s)" by (simp_all add: paced_def)
  from throttle_exact [OF assms(1) c, of d] assms(3)
  have "lastFetchAt s + I \<le> lastFetchAt (throttle I d s) + tol" by simp
  with throttle_records [of I d s] l sp False
  show ?thesis by (simp add: paced_def spaced_within_def successively_append_iff)
qed

lemma paced_advance: "0 \<le> d \<Longrightarrow> paced tol I s \<Longrightarrow> paced tol I (advance d s)"
  by (auto simp: paced_def advance_def)

lemma paced_batches:
  assumes "I \<le> 2147483647" and "\<forall>b\<in>set bs. steady tol b" and "paced tol I s"
  shows "paced tol I (final (process_batches I bs s))"
  using assms(2,3)
proof (induction bs arbitrary: s)
  case Nil
  then show ?case by (simp add: final_def)
next
  case (Cons b bs)
  let ?s' = "advance (work b) (throttle I (drift b) (advance (before b) s))"
  from Cons.prems(1) have b: "0 \<le> before b" "0 \<le> work b" "- tol \<le> drift b"
    by (simp_all add: steady_def)
  from b(1) Cons.prems(2) have "paced tol I (advance (before b) s)" by (rule paced_advance)
  with assms(1) have "paced tol I (throttle I (drift b) (advance (before b) s))"
    using b(3) by (rule paced_throttle)
  with b(2) have p: "paced tol I ?s'" by (rule paced_advance)
  show ?case
  proof (cases "throws b")
    case True
    with p show ?thesis by (simp add: final_def Let_def)
  next
    case False
    from Cons.prems(1) have "\<forall>b\<in>set bs. steady tol b" by simp
    from Cons.IH [OF this p] False show ?thesis by (simp add: Let_def)
  qed
qed

lemma process_batches_append:
  "process_batches I (as @ bs) s =
     (case process_batches I as s of Inl s' \<Rightarrow> Inl s' | Inr s' \<Rightarrow> process_batches I bs s')"
  by (induction as arbitrary: s) (simp_all add: Let_def)

lemma process_files_concat: "process_files I files s = process_batches I (concat files) s"
  by (induction files arbitrary: s) (simp_all add: process_batches_append split: sum.splits)

lemma starts_count:
  "case process_batches I bs s of
     Inl s' \<Rightarrow> length (starts s') \<le> length (starts s) + length bs
   | Inr s' \<Rightarrow> length (starts s') = length (starts s) + length bs"
proof (induction bs arbitrary: s)
  case Nil
  show ?case by simp
next
  case (Cons b bs)
  let ?s' = "advance (work b) (throttle I (drift b) (advance (before b) s))"
  have n: "length (starts ?s') = Suc (length (starts s))"
    using throttle_records [of I "drift b" "advance (before b) s"] by (simp add: advance_def)
  show ?case
  proof (cases "throws b")
    case True
    with n show ?thesis by (simp add: Let_def)
  next
    case False
    with Cons.IH [where s = ?s'] n show ?thesis by (auto simp: Let_def split: sum.splits)
  qed
qed

text \<open>
  Claim C6, as amended.  Let the interval \<open>I\<close> be one that \<^verbatim>\<open>setTimeout\<close> takes as it is
  (the two configured ones, 1250 and 60000, are such), and let the wall clock not step
  back between the calls of the limiter and the timer resume the caller early by at most
  \<open>tol\<close> by the wall clock.  Then, for every start of the clock and every list of files
  with their batches, each two consecutive start times that the limiter records in a run
  are at least \<open>I - tol\<close> apart.  The run over the files is the run over all their batches
  in one sequence from the one initial state: nothing resets the variable between files.
  Every call of the limiter, with \<open>elapsed\<close> the clock less the variable, passes to
  \<^verbatim>\<open>sleep\<close> exactly \<open>I - elapsed\<close> when \<open>elapsed < I\<close> and does not sleep otherwise, records
  the clock read after that as the new start, at the end of the trace, and, when the
  variable is not ahead of the clock, the new start is the later of the clock at the call
  and the last start plus \<open>I\<close>, moved by the drift.
\<close>

theorem throttle_spacing:
  assumes "I \<le> 2147483647" and "\<forall>b\<in>set (concat files). steady tol b"
  shows "spaced_within tol I (starts (final (run I t0 files)))
         \<and> run I t0 files
             = process_batches I (concat files) \<lparr>clock = t0, lastFetchAt = 0, starts = [], waits = []\<rparr>
         \<and> (case run I t0 files of
               Inl s \<Rightarrow> length (starts s) \<le> length (concat files)
             | Inr s \<Rightarrow> length (starts s) = length (concat files))
         \<and> waits (throttle I d s)
             = waits s @ (if clock s - lastFetchAt s < I then [I - (clock s - lastFetchAt s)] else [])
         \<and> lastFetchAt (throttle I d s) = clock (throttle I d s)
         \<and> starts (throttle I d s) = starts s @ [lastFetchAt (throttle I d s)]
         \<and> (if lastFetchAt s \<le> clock s
              then lastFetchAt (throttle I d s) = max (clock s) (lastFetchAt s + I) + d
              else True)"
proof -
  let ?s0 = "\<lparr>clock = t0, lastFetchAt = 0, starts = [], waits = []\<rparr>"
  have r: "run I t0 files = process_batches I (concat files) ?s0"
    by (simp add: run_def process_files_concat)
  have "paced tol I ?s0" by (simp add: paced_def spaced_within_def)
  from paced_batches [OF assms this]
  have a: "spaced_within tol I (starts (final (run I t0 files)))" by (simp add: r paced_def)
  have c: "case run I t0 files of
               Inl s \<Rightarrow> length (starts s) \<le> length (concat files)
             | Inr s \<Rightarrow> length (starts s) = length (concat files)"
    using starts_count [where I = I and bs = "concat files" and s = ?s0]
    by (simp add: r split: sum.splits)
  have e: "if lastFetchAt s \<le> clock s
           then lastFetchAt (throttle I d s) = max (clock s) (lastFetchAt s + I) + d
           else True"
    using throttle_exact [OF assms(1), where s = s and d = d] by simp
  from a r c e throttle_records [of I d s] show ?thesis by simp
qed

lemma configured_intervals:
  "SLEEP_BETWEEN_BATCHES_MS_paapi \<le> 2147483647 \<and> SLEEP_BETWEEN_BATCHES_MS_keepa \<le> 2147483647"
  by (simp add: SLEEP_BETWEEN_BATCHES_MS_paapi_def SLEEP_BETWEEN_BATCHES_MS_keepa_def)

lemma example_run:
  "run SLEEP_BETWEEN_BATCHES_MS_paapi 1000000 [[example_batch], [early_batch]]
     = Inr \<lparr>clock = 1001452, lastFetchAt = 1001252, starts = [1000003, 1001252], waits = [1050]\<rparr>"
  by (simp add: run_def example_batch_def early_batch_def Let_def advance_def throttle_def sleep_def
      setTimeout_delay_def SLEEP_BETWEEN_BATCHES_MS_paapi_def)

theorem throttle_spacing_witness:
  "SLEEP_BETWEEN_BATCHES_MS_paapi \<le> 2147483647
   \<and> steady 1 example_batch \<and> steady 1 early_batch
   \<and> starts (final (run SLEEP_BETWEEN_BATCHES_MS_paapi 1000000 [[example_batch], [early_batch]]))
       = [1000003, 1001252]
   \<and> spaced_within 1 SLEEP_BETWEEN_BATCHES_MS_paapi [1000003, 1001252]"
proof -
  have h: "SLEEP_BETWEEN_BATCHES_MS_paapi \<le> 2147483647"
    by (simp add: configured_intervals)
  have b: "steady 1 example_batch" "steady 1 early_batch"
    by (simp_all add: steady_def example_batch_def early_batch_def)
  then have "\<forall>b\<in>set (concat [[example_batch], [early_batch]]). steady 1 b" by simp
  from throttle_spacing [OF h this, where ?t0.0 = 1000000, THEN conjunct1] h b
  show ?thesis by (simp add: example_run final_def)
qed

text \<open>
  The claim as it was stated fails: when the timer resumes the caller 1 ms early by the
  wall clock, the second start is recorded 1249 ms after the first, less than the
  interval of 1250 ms.
\<close>

theorem throttle_spacing_counterexample:
  "starts (final (run SLEEP_BETWEEN_BATCHES_MS_paapi 1000000 [[example_batch], [early_batch]]))
     = [1000003, 1001252]
   \<and> \<not> spaced SLEEP_BETWEEN_BATCHES_MS_paapi [1000003, 1001252]"
  using example_run by (simp add: final_def spaced_def SLEEP_BETWEEN_BATCHES_MS_paapi_def)

text \<open>
  When no timer resumes the caller early, the starts are at least the interval apart.
\<close>

lemma throttle_spacing_on_time:
  assumes "I \<le> 2147483647" and "\<forall>b\<in>set (concat files). steady 0 b"
  shows "spaced I (starts (final (run I t0 files)))"
proof -
  let ?s0 = "\<lparr>clock = t0, lastFetchAt = 0, starts = [], waits = []\<rparr>"
  have "paced 0 I ?s0" by (simp add: paced_def spaced_within_def)
  from paced_batches [OF assms this]
  show ?thesis by (simp add: run_def process_files_concat paced_def spaced_within_def spaced_def)
qed

section \<open>Request Signer: the signature and the authorization header\<close>

lemma header_names_sorted:
  "sorted_wrt name_less [''content-encoding'', ''content-type'', ''host'', ''x-amz-date'', ''x-amz-target'']"
  by simp

text \<open>
  Claim C1.  For every credential set, payload and time stamp, and whatever the hash
  functions are, the descriptor that \<^const>\<open>buildAuthHeaders\<close> returns has the method
  POST and the JSON text of the payload as its body; its headers are the five signed
  headers, in the order of their lower-case names, and then \<^verbatim>\<open>Authorization\<close>, whose
  value is the algorithm, the access key with the credential scope, the signed-header
  list and the signature; and the signature is the hex HMAC, under the key derived from
  \<^verbatim>\<open>AWS4\<close> and the secret key over the date stamp, the region, the service and
  \<^verbatim>\<open>aws4_request\<close>, of the string to sign built from the algorithm, the time stamp,
  the credential scope and the hex hash of the canonical request.
\<close>

theorem buildAuthHeaders_signature:
  "(let r = buildAuthHeaders lib stringify isoString args;
        timestamp = amzDate_of isoString;
        dateStamp = take 8 timestamp;
        hs = butlast (headers r);
        scope = credential_scope dateStamp (region args) (service args);
        creq = canonical_request lib (http_method r) (path args) hs (body r);
        signature = hex (hmac lib (signing_key lib (secretKey args) dateStamp (region args) (service args))
                           (string_to_sign lib ''AWS4-HMAC-SHA256'' timestamp scope creq))
    in http_method r = ''POST''
       \<and> body r = stringify (payload args)
       \<and> hs = [(''content-encoding'', ''amz-1.0''),
               (''content-type'', ''application/json; charset=utf-8''),
               (''host'', host args), (''x-amz-date'', timestamp), (''x-amz-target'', amzTarget args)]
       \<and> sorted_wrt name_less (map fst hs)
       \<and> list_all (\<lambda>k. list_all (\<lambda>c. \<not> is_upper c) k) (map fst hs)
       \<and> last (headers r)
           = (''Authorization'',
              authorization ''AWS4-HMAC-SHA256'' (accessKey args) scope (signed_headers hs) signature))"
  by (simp add: Let_def buildAuthHeaders_def header_names_sorted canonical_request_def
      canonical_headers_def signed_headers_def credential_scope_def string_to_sign_def
      signing_key_def authorization_def newline_def is_upper_def)

lemma example_amzDate: "amzDate_of ''2026-11-02T08:46:05.123Z'' = ''20261102T084605Z''"
  by (simp add: amzDate_of_def is_digit_def)

theorem buildAuthHeaders_signature_witness:
  "(let r = buildAuthHeaders example_crypto (\<lambda>p. p) ''2026-11-02T08:46:05.123Z'' example_args
    in http_method r = ''POST'' \<and> body r = ''{}''
       \<and> butlast (headers r)
           = [(''content-encoding'', ''amz-1.0''),
              (''content-type'', ''application/json; charset=utf-8''),
              (''host'', ''webservices.amazon.com''),
              (''x-amz-date'', ''20261102T084605Z''),
              (''x-amz-target'', ''com.amazon.paapi5.v1.ProductAdvertisingAPIv1.GetItems'')]
       \<and> fst (last (headers r)) = ''Authorization'')"
  using buildAuthHeaders_signature [of example_crypto "\<lambda>p. p" "''2026-11-02T08:46:05.123Z''" example_args]
  by (simp add: Let_def example_amzDate example_args_def)

end
